theory Spec2Isabelle
  imports Main
begin

section \<open>The regular expressions of convert-test.py\<close>

text \<open>
  The program is one Python function, \<open>convert_test_file\<close>, that pipes a document through
  four calls of \<open>re.sub\<close>, and a main block that reads one file, converts it and writes
  another. A document is a \<open>string\<close>: a list of characters with codes below 256.

  The four patterns use only a small part of Python's regular expressions: literal
  characters (some of them escaped: \<open>\(\<close>, \<open>\)\<close>, \<open>\.\<close>), the class \<open>\s\<close>, the
  negated class \<open>[^\)]\<close>, the greedy quantifiers \<open>*\<close> and \<open>+\<close> on one class, and
  capturing groups. A pattern is the list of its tokens in source order.
\<close>

datatype cls = Exactly char | Whitespace | NotChar char

text \<open>
  \<open>\s\<close> in a \<open>str\<close> pattern is Unicode whitespace (\<open>str.isspace\<close>). Below code 256 these
  are TAB, LF, VT, FF, CR, the separators 0x1C to 0x1F, the space, NEL (0x85) and the
  no-break space (0xA0).
\<close>

definition is_space :: "char \<Rightarrow> bool" where
  "is_space c \<longleftrightarrow>
     c \<in> set [CHR 0x09, CHR 0x0A, CHR 0x0B, CHR 0x0C, CHR 0x0D, CHR 0x1C, CHR 0x1D,
               CHR 0x1E, CHR 0x1F, CHR 0x20, CHR 0x85, CHR 0xA0]"

fun cls_match :: "cls \<Rightarrow> char \<Rightarrow> bool" where
  "cls_match (Exactly d) c = (c = d)"
| "cls_match Whitespace c = is_space c"
| "cls_match (NotChar d) c = (c \<noteq> d)"

datatype tok = One cls | Star cls | Plus cls | GOpen | GClose

text \<open>
  The matcher's state: the texts of the groups closed so far, in order, and the text
  consumed so far by the group that is open (if one is).
\<close>

type_synonym mstate = "string list \<times> string option"

definition take_char :: "char \<Rightarrow> mstate \<Rightarrow> mstate" where
  "take_char c st = (fst st, map_option (\<lambda>g. g @ [c]) (snd st))"

definition open_group :: "mstate \<Rightarrow> mstate" where
  "open_group st = (fst st, Some [])"

definition close_group :: "mstate \<Rightarrow> mstate" where
  "close_group st = (case snd st of Some g \<Rightarrow> (fst st @ [g], None) | None \<Rightarrow> st)"

text \<open>
  \<open>rmatch pat s st\<close> is the backtracking match of \<open>pat\<close> at the start of \<open>s\<close>, as
  \<open>re\<close> runs it: a greedy quantifier first tries to take one more character, and gives
  it back when the rest of the pattern then fails. The result is the list of captured
  groups and the text after the match; \<open>None\<close> when there is no match at this position.
\<close>

fun rmatch :: "tok list \<Rightarrow> string \<Rightarrow> mstate \<Rightarrow> (string list \<times> string) option" where
  "rmatch [] s st = Some (fst st, s)"
| "rmatch (One k # ts) [] st = None"
| "rmatch (One k # ts) (c # s) st =
     (if cls_match k c then rmatch ts s (take_char c st) else None)"
| "rmatch (Plus k # ts) [] st = None"
| "rmatch (Plus k # ts) (c # s) st =
     (if cls_match k c then rmatch (Star k # ts) s (take_char c st) else None)"
| "rmatch (Star k # ts) [] st = rmatch ts [] st"
| "rmatch (Star k # ts) (c # s) st =
     (if cls_match k c
      then (case rmatch (Star k # ts) s (take_char c st) of
              Some r \<Rightarrow> Some r
            | None \<Rightarrow> rmatch ts (c # s) st)
      else rmatch ts (c # s) st)"
| "rmatch (GOpen # ts) s st = rmatch ts s (open_group st)"
| "rmatch (GClose # ts) s st = rmatch ts s (close_group st)"

definition match_at :: "tok list \<Rightarrow> string \<Rightarrow> (string list \<times> string) option" where
  "match_at pat s = rmatch pat s ([], None)"

text \<open>A run of literal characters of a pattern.\<close>

definition lit :: "string \<Rightarrow> tok list" where
  "lit l = map (\<lambda>c. One (Exactly c)) l"

subsection \<open>Replacement templates and \<open>re.sub\<close>\<close>

text \<open>
  A replacement template is literal text with group references \<open>\1\<close>, \<open>\2\<close>, ...
  \<open>re.sub\<close> compiles the template before it searches, and raises \<open>re.error\<close>
  (invalid group reference) when a reference names a group the pattern does not have.
\<close>

datatype tpl = TLit string | TGroup nat

datatype error =
  ReError | FileNotFoundError | PermissionError | IsADirectoryError | UnicodeDecodeError |
  OSError

definition ngroups :: "tok list \<Rightarrow> nat" where
  "ngroups pat = length (filter (\<lambda>t. t = GOpen) pat)"

fun tpl_ok :: "nat \<Rightarrow> tpl \<Rightarrow> bool" where
  "tpl_ok n (TLit l) = True"
| "tpl_ok n (TGroup i) = (1 \<le> i \<and> i \<le> n)"

fun expand :: "tpl list \<Rightarrow> string list \<Rightarrow> string" where
  "expand [] gs = []"
| "expand (TLit l # t) gs = l @ expand t gs"
| "expand (TGroup i # t) gs = gs ! (i - 1) @ expand t gs"

text \<open>
  The loop of \<open>re.sub\<close> with the default \<open>count=0\<close>: search for the leftmost match,
  copy the text before it, append the expanded template, and go on after the match, until
  the end of the text. Since the patterns have no anchors and no look-behind, whether a
  match starts at a position depends on the text from that position on only. After an
  empty match the next character is copied and the search goes on behind it.
\<close>

function sub_loop :: "tok list \<Rightarrow> tpl list \<Rightarrow> string \<Rightarrow> string" where
  "sub_loop pat repl s =
     (case match_at pat s of
        Some (gs, rest) \<Rightarrow>
          if length rest < length s then expand repl gs @ sub_loop pat repl rest
          else (case s of
                  [] \<Rightarrow> expand repl gs
                | c # s' \<Rightarrow> expand repl gs @ c # sub_loop pat repl s')
      | None \<Rightarrow>
          (case s of
             [] \<Rightarrow> []
           | c # s' \<Rightarrow> c # sub_loop pat repl s'))"
  by pat_completeness auto
termination
  by (relation "measure (\<lambda>(pat, repl, s). length s)") auto

declare sub_loop.simps [simp del]

definition re_sub :: "tok list \<Rightarrow> tpl list \<Rightarrow> string \<Rightarrow> error + string" where
  "re_sub pat repl s =
     (if list_all (tpl_ok (ngroups pat)) repl then Inr (sub_loop pat repl s)
      else Inl ReError)"

section \<open>The four rules\<close>

text \<open>
  Rule 1: \<^verbatim>\<open>re.sub(r"import request from 'supertest';\n", '', content)\<close>
\<close>

definition import_line :: string where
  "import_line = ''import request from 'supertest';\<newline>''"

definition import_pat :: "tok list" where
  "import_pat = lit import_line"

definition import_repl :: "tpl list" where
  "import_repl = []"

text \<open>
  All of rules 2 to 4 start with \<^verbatim>\<open>await request\(app\.fetch as any\)\<close>.
\<close>

definition chain_head :: string where
  "chain_head = ''await request(app.fetch as any)''"

definition arg_group :: "tok list" where
  "arg_group = [GOpen, Plus (NotChar CHR '')''), GClose]"

text \<open>
  Rule 2:
  \<^verbatim>\<open>r'await request\(app\.fetch as any\)\s*\.get\(([^\)]+)\)\s*\.set\(([^\)]+)\);'\<close>
  replaced by
  \<^verbatim>\<open>r'await app.request(\1, { method: "GET", headers: \2 });'\<close>
\<close>

definition get_set_pat :: "tok list" where
  "get_set_pat =
     lit chain_head @ [Star Whitespace] @ lit ''.get('' @ arg_group @ lit '')'' @
     [Star Whitespace] @ lit ''.set('' @ arg_group @ lit '');''"

definition get_set_repl :: "tpl list" where
  "get_set_repl =
     [TLit ''await app.request('', TGroup 1, TLit '', { method: \"GET\", headers: '',
      TGroup 2, TLit '' });'']"

text \<open>
  Rule 3:
  \<^verbatim>\<open>r'await request\(app\.fetch as any\)\.get\(([^\)]+)\);'\<close>
  replaced by
  \<^verbatim>\<open>r'await app.request(\1, { method: "GET" });'\<close>
\<close>

definition get_pat :: "tok list" where
  "get_pat = lit chain_head @ lit ''.get('' @ arg_group @ lit '');''"

definition get_repl :: "tpl list" where
  "get_repl = [TLit ''await app.request('', TGroup 1, TLit '', { method: \"GET\" });'']"

text \<open>
  Rule 4:
  \<^verbatim>\<open>r'await request\(app\.fetch as any\)\s*\.post\(([^\)]+)\)\s*\.set\(([^\)]+)\)\s*\.send\(([^\)]+)\);'\<close>
  replaced by
  \<^verbatim>\<open>r'await app.request(\1, { method: "POST", headers: \2, body: JSON.stringify(\3) });'\<close>
\<close>

definition post_pat :: "tok list" where
  "post_pat =
     lit chain_head @ [Star Whitespace] @ lit ''.post('' @ arg_group @ lit '')'' @
     [Star Whitespace] @ lit ''.set('' @ arg_group @ lit '')'' @
     [Star Whitespace] @ lit ''.send('' @ arg_group @ lit '');''"

definition post_repl :: "tpl list" where
  "post_repl =
     [TLit ''await app.request('', TGroup 1, TLit '', { method: \"POST\", headers: '',
      TGroup 2, TLit '', body: JSON.stringify('', TGroup 3, TLit '') });'']"

text \<open>
  \<open>convert_test_file\<close>: the four substitutions in the order of the source, each on
  the result of the one before; an exception of a \<open>re.sub\<close> call ends the function.
\<close>

definition convert_test_file :: "string \<Rightarrow> error + string" where
  "convert_test_file content =
     (case re_sub import_pat import_repl content of
        Inl e \<Rightarrow> Inl e
      | Inr c1 \<Rightarrow>
          (case re_sub get_set_pat get_set_repl c1 of
             Inl e \<Rightarrow> Inl e
           | Inr c2 \<Rightarrow>
               (case re_sub get_pat get_repl c2 of
                  Inl e \<Rightarrow> Inl e
                | Inr c3 \<Rightarrow> re_sub post_pat post_repl c3)))"

section \<open>The main block\<close>

text \<open>
  The main block opens a fixed path for reading (text mode) and reads all of it, converts
  the text, opens a second fixed path with mode \<open>'w'\<close>, writes the result, and prints one
  line. Every one of these steps but the conversion can raise. The model passes the world
  explicitly: the files by path, and the lines printed so far. What the operating system
  answers is part of the world: for a file, the error that opening it for reading, reading
  it, or opening it for writing raises (if any); for a path without a file, the error that
  creating it raises (\<open>FileNotFoundError\<close> without the directory, \<open>PermissionError\<close> when
  the directory is not writable); for a path, after how many characters a write to it
  fails and with which error; and the error of printing. An exception ends the run; the
  world it leaves is returned with it.
\<close>

record entry =
  data :: string
  open_read_error :: "error option"
  read_error :: "error option"
  open_write_error :: "error option"

record world =
  fs :: "string \<rightharpoonup> entry"
  create_error :: "string \<Rightarrow> error option"
  write_limit :: "string \<Rightarrow> (nat \<times> error) option"
  print_error :: "error option"
  stdout :: "string list"

definition in_path :: string where
  "in_path = ''/Users/brucewayne/epitome/api/tests/integration/api/graph.test.ts.backup''"

definition out_path :: string where
  "out_path = ''/Users/brucewayne/epitome/api/tests/integration/api/graph.test.ts''"

text \<open>\<^verbatim>\<open>open(path, 'r')\<close>: the file that is opened, or the error.\<close>

definition open_read :: "world \<Rightarrow> string \<Rightarrow> error + entry" where
  "open_read w p =
     (case fs w p of
        None \<Rightarrow> Inl FileNotFoundError
      | Some f \<Rightarrow> (case open_read_error f of Some e \<Rightarrow> Inl e | None \<Rightarrow> Inr f))"

text \<open>
  \<^verbatim>\<open>f.read()\<close> in text mode: reading can fail after the file was opened (an I/O error, or
  bytes that do not decode: \<open>UnicodeDecodeError\<close>). Text mode reads with universal
  newlines: CR LF and a lone CR both arrive as LF.
\<close>

fun universal_newlines :: "string \<Rightarrow> string" where
  "universal_newlines [] = []"
| "universal_newlines [c] = (if c = CHR 0x0D then [CHR 0x0A] else [c])"
| "universal_newlines (c # d # s) =
     (if c = CHR 0x0D \<and> d = CHR 0x0A then CHR 0x0A # universal_newlines s
      else if c = CHR 0x0D then CHR 0x0A # universal_newlines (d # s)
      else c # universal_newlines (d # s))"

definition read_all :: "entry \<Rightarrow> error + string" where
  "read_all f =
     (case read_error f of Some e \<Rightarrow> Inl e | None \<Rightarrow> Inr (universal_newlines (data f)))"

text \<open>The first \<open>with\<close> block: open, then read. Neither changes the world.\<close>

definition read_file :: "world \<Rightarrow> string \<Rightarrow> error + string" where
  "read_file w p = (case open_read w p of Inl e \<Rightarrow> Inl e | Inr f \<Rightarrow> read_all f)"

text \<open>\<^verbatim>\<open>open(path, 'w')\<close> creates the file or truncates it.\<close>

definition open_write :: "world \<Rightarrow> string \<Rightarrow> error + world" where
  "open_write w p =
     (case fs w p of
        None \<Rightarrow>
          (case create_error w p of
             Some e \<Rightarrow> Inl e
           | None \<Rightarrow>
               Inr (w\<lparr>fs := (fs w)(p \<mapsto>
                 \<lparr>data = [], open_read_error = None, read_error = None,
                  open_write_error = None\<rparr>)\<rparr>))
      | Some f \<Rightarrow>
          (case open_write_error f of
             Some e \<Rightarrow> Inl e
           | None \<Rightarrow> Inr (w\<lparr>fs := (fs w)(p \<mapsto> f\<lparr>data := []\<rparr>)\<rparr>)))"

text \<open>
  \<^verbatim>\<open>f.write(converted)\<close> and the closing of the file at the end of the second \<open>with\<close>
  block. When the device fails after \<open>n\<close> characters, these stay in the file, which was
  truncated before, and the error is raised.
\<close>

definition write_text :: "world \<Rightarrow> string \<Rightarrow> string \<Rightarrow> world \<times> error option" where
  "write_text w p t =
     (case fs w p of
        None \<Rightarrow> (w, Some OSError)
      | Some f \<Rightarrow>
          (case write_limit w p of
             None \<Rightarrow> (w\<lparr>fs := (fs w)(p \<mapsto> f\<lparr>data := data f @ t\<rparr>)\<rparr>, None)
           | Some (n, e) \<Rightarrow>
               if n < length t
               then (w\<lparr>fs := (fs w)(p \<mapsto> f\<lparr>data := data f @ take n t\<rparr>)\<rparr>, Some e)
               else (w\<lparr>fs := (fs w)(p \<mapsto> f\<lparr>data := data f @ t\<rparr>)\<rparr>, None)))"

definition print_line :: "world \<Rightarrow> string \<Rightarrow> world \<times> error option" where
  "print_line w l =
     (case print_error w of
        Some e \<Rightarrow> (w, Some e)
      | None \<Rightarrow> (w\<lparr>stdout := stdout w @ [l]\<rparr>, None))"

definition main :: "world \<Rightarrow> world \<times> error option" where
  "main w =
     (case read_file w in_path of
        Inl e \<Rightarrow> (w, Some e)
      | Inr content \<Rightarrow>
          (case convert_test_file content of
             Inl e \<Rightarrow> (w, Some e)
           | Inr converted \<Rightarrow>
               (case open_write w out_path of
                  Inl e \<Rightarrow> (w, Some e)
                | Inr w1 \<Rightarrow>
                    (case write_text w1 out_path converted of
                       (w2, Some e) \<Rightarrow> (w2, Some e)
                     | (w2, None) \<Rightarrow> print_line w2 ''Conversion complete!''))))"

text \<open>Worlds to run the main block in: one without the input file, one that has it, one
  whose input does not decode, and one whose disk is full after four characters.\<close>

definition no_input_world :: world where
  "no_input_world =
     \<lparr>fs = Map.empty, create_error = (\<lambda>p. None), write_limit = (\<lambda>p. None),
      print_error = None, stdout = []\<rparr>"

definition ready_world :: world where
  "ready_world =
     \<lparr>fs = [in_path \<mapsto>
        \<lparr>data = ''const a = 1;\<newline>'', open_read_error = None, read_error = None,
         open_write_error = Some PermissionError\<rparr>],
      create_error = (\<lambda>p. None), write_limit = (\<lambda>p. None), print_error = None,
      stdout = []\<rparr>"

definition undecodable_world :: world where
  "undecodable_world =
     \<lparr>fs = [in_path \<mapsto>
        \<lparr>data = ''const a = 1;\<newline>'', open_read_error = None,
         read_error = Some UnicodeDecodeError, open_write_error = None\<rparr>],
      create_error = (\<lambda>p. None), write_limit = (\<lambda>p. None), print_error = None,
      stdout = []\<rparr>"

definition full_disk_world :: world where
  "full_disk_world = ready_world\<lparr>write_limit := (\<lambda>p. Some (4, OSError))\<rparr>"

section \<open>Vocabulary of the properties\<close>

text \<open>\<open>starts_with p s\<close>: the text \<open>s\<close> begins with \<open>p\<close>; \<open>contains p s\<close>: \<open>p\<close>
  occurs somewhere in \<open>s\<close>.\<close>

fun starts_with :: "string \<Rightarrow> string \<Rightarrow> bool" where
  "starts_with [] s = True"
| "starts_with (c # p) [] = False"
| "starts_with (c # p) (d # s) = (c = d \<and> starts_with p s)"

fun contains :: "string \<Rightarrow> string \<Rightarrow> bool" where
  "contains p [] = (p = [])"
| "contains p (c # s) = (starts_with p (c # s) \<or> contains p s)"

text \<open>\<open>matches_in pat s\<close>: the pattern matches at some position of \<open>s\<close>.\<close>

fun matches_in :: "tok list \<Rightarrow> string \<Rightarrow> bool" where
  "matches_in pat [] = (match_at pat [] \<noteq> None)"
| "matches_in pat (c # s) = (match_at pat (c # s) \<noteq> None \<or> matches_in pat s)"

text \<open>\<open>no_start_in pat t r\<close>: in the text \<open>t @ r\<close>, no match of the pattern starts at a
  position of \<open>t\<close>.\<close>

fun no_start_in :: "tok list \<Rightarrow> string \<Rightarrow> string \<Rightarrow> bool" where
  "no_start_in pat [] r = True"
| "no_start_in pat (c # t) r = (match_at pat (c # t @ r) = None \<and> no_start_in pat t r)"

text \<open>\<open>tails_clear q r\<close>: \<open>r\<close> begins with no non-empty tail of \<open>q\<close>.\<close>

fun tails_clear :: "string \<Rightarrow> string \<Rightarrow> bool" where
  "tails_clear [] r = True"
| "tails_clear (c # q) r = (\<not> starts_with (c # q) r \<and> tails_clear q r)"

text \<open>
  \<open>unmatched t r r'\<close>: the text \<open>t\<close> stays unmatched while the rules run. No match of
  rule 2 starts in \<open>t\<close> when \<open>r\<close> follows it (in the document), and no match of rule 3
  or rule 4 starts in \<open>t\<close> when \<open>r'\<close> follows it (in the text that rule 2 leaves).
\<close>

definition unmatched :: "string \<Rightarrow> string \<Rightarrow> string \<Rightarrow> bool" where
  "unmatched t r r' \<longleftrightarrow>
     no_start_in get_set_pat t r \<and> no_start_in get_pat t r' \<and> no_start_in post_pat t r'"

text \<open>An argument text that a group \<open>([^\)]+)\<close> can capture whole, and a run of
  whitespace.\<close>

definition arg_ok :: "string \<Rightarrow> bool" where
  "arg_ok a \<longleftrightarrow> a \<noteq> [] \<and> CHR '')'' \<notin> set a"

definition blank :: "string \<Rightarrow> bool" where
  "blank w \<longleftrightarrow> list_all is_space w"

text \<open>
  The chains of the three shapes, without the final semicolon, and the calls that
  replace them. \<open>w\<close>, \<open>v\<close> and \<open>u\<close> are the texts between the chained calls.
\<close>

definition get_set_chain :: "string \<Rightarrow> string \<Rightarrow> string \<Rightarrow> string \<Rightarrow> string" where
  "get_set_chain w p v h =
     chain_head @ w @ ''.get('' @ p @ '')'' @ v @ ''.set('' @ h @ '')''"

definition get_set_call :: "string \<Rightarrow> string \<Rightarrow> string" where
  "get_set_call p h =
     ''await app.request('' @ p @ '', { method: \"GET\", headers: '' @ h @ '' });''"

definition get_chain :: "string \<Rightarrow> string" where
  "get_chain p = chain_head @ ''.get('' @ p @ '')''"

definition get_call :: "string \<Rightarrow> string" where
  "get_call p = ''await app.request('' @ p @ '', { method: \"GET\" });''"

definition post_chain ::
  "string \<Rightarrow> string \<Rightarrow> string \<Rightarrow> string \<Rightarrow> string \<Rightarrow> string \<Rightarrow> string" where
  "post_chain w p v h u d =
     chain_head @ w @ ''.post('' @ p @ '')'' @ v @ ''.set('' @ h @ '')'' @ u @
     ''.send('' @ d @ '')''"

definition post_call :: "string \<Rightarrow> string \<Rightarrow> string \<Rightarrow> string" where
  "post_call p h d =
     ''await app.request('' @ p @ '', { method: \"POST\", headers: '' @ h @
     '', body: JSON.stringify('' @ d @ '') });''"

text \<open>A text that uses the legacy idiom with the verbs PUT, DELETE and PATCH only.\<close>

definition other_verbs_text :: string where
  "other_verbs_text =
     ''const a = await request(app.fetch as any).put('/x').set(h).send(d);\<newline>'' @
     ''await request(app.fetch as any).delete('/y').set(h);\<newline>'' @
     ''await request(app.fetch as any)\<newline>  .patch('/z')\<newline>  .send(d);\<newline>''"

section \<open>Facts about the matcher\<close>

lemma take_char_closed [simp]: "take_char c (gs, None) = (gs, None)"
  by (simp add: take_char_def)

lemma take_char_open [simp]: "take_char c (gs, Some g) = (gs, Some (g @ [c]))"
  by (simp add: take_char_def)

lemma open_group_closed [simp]: "open_group (gs, None) = (gs, Some [])"
  by (simp add: open_group_def)

lemma close_group_open [simp]: "close_group (gs, Some g) = (gs @ [g], None)"
  by (simp add: close_group_def)

lemma lit_Nil [simp]: "lit [] = []"
  by (simp add: lit_def)

lemma lit_Cons [simp]: "lit (c # l) = One (Exactly c) # lit l"
  by (simp add: lit_def)

lemma option_case_same [simp]: "(case x of Some r \<Rightarrow> Some r | None \<Rightarrow> None) = x"
  by (cases x) simp_all

lemma starts_with_append_same [simp]: "starts_with l (l @ s)"
  by (induction l) simp_all

lemma starts_with_split: "starts_with l s \<longleftrightarrow> (\<exists>s'. s = l @ s')"
proof (induction l s rule: starts_with.induct)
  case (1 s) show ?case by simp
next
  case (2 c p) show ?case by simp
next
  case (3 c p d s) then show ?case by auto
qed

lemma rmatch_lit:
  "rmatch (lit l @ ts) s (gs, None) =
     (if starts_with l s then rmatch ts (drop (length l) s) (gs, None) else None)"
proof (induction l s rule: starts_with.induct)
  case (1 s) show ?case by simp
next
  case (2 c p) show ?case by simp
next
  case (3 c p d s) then show ?case by simp
qed

lemma rmatch_lit_same [simp]:
  "rmatch (lit l @ ts) (l @ s) (gs, None) = rmatch ts s (gs, None)"
  by (simp add: rmatch_lit)

lemma star_closed:
  assumes "\<not> cls_match k d"
  shows "rmatch (Star k # One (Exactly d) # ts) s (gs, None) =
         rmatch (One (Exactly d) # ts) (dropWhile (cls_match k) s) (gs, None)"
proof (induction s)
  case Nil
  show ?case by simp
next
  case (Cons a s)
  show ?case
  proof (cases "cls_match k a")
    case True
    with assms have "a \<noteq> d" by auto
    with True Cons show ?thesis by (simp split: option.splits)
  next
    case False
    then show ?thesis by simp
  qed
qed

lemma star_in_group:
  assumes "\<not> cls_match k d"
  shows "rmatch (Star k # GClose # One (Exactly d) # ts) s (gs, Some g) =
         rmatch (One (Exactly d) # ts) (dropWhile (cls_match k) s)
           (gs @ [g @ takeWhile (cls_match k) s], None)"
proof (induction s arbitrary: g)
  case Nil
  show ?case by simp
next
  case (Cons a s)
  show ?case
  proof (cases "cls_match k a")
    case True
    with assms have "a \<noteq> d" by auto
    with True Cons [of "g @ [a]"] show ?thesis by (simp split: option.splits)
  next
    case False
    then show ?thesis by simp
  qed
qed

lemma arg_group_scan:
  "rmatch (arg_group @ One (Exactly CHR '')'') # ts) s (gs, None) =
     (if takeWhile (\<lambda>c. c \<noteq> CHR '')'') s = [] then None
      else rmatch (One (Exactly CHR '')'') # ts) (dropWhile (\<lambda>c. c \<noteq> CHR '')'') s)
             (gs @ [takeWhile (\<lambda>c. c \<noteq> CHR '')'') s], None))"
proof (cases s)
  case Nil
  then show ?thesis by (simp add: arg_group_def)
next
  case (Cons c s')
  have eq: "cls_match (NotChar CHR '')'') = (\<lambda>c. c \<noteq> CHR '')'')"
    by (rule ext) simp
  show ?thesis
    using Cons star_in_group [of "NotChar CHR '')''" "CHR '')''" ts s' gs "[c]"]
    by (simp add: arg_group_def eq)
qed

lemma arg_group_run:
  assumes "CHR '')'' \<notin> set a"
  shows "rmatch (arg_group @ One (Exactly CHR '')'') # ts) (a @ CHR '')'' # s) (gs, None) =
           (if a = [] then None else rmatch ts s (gs @ [a], None))"
proof -
  have "takeWhile (\<lambda>c. c \<noteq> CHR '')'') (a @ CHR '')'' # s) = a"
    using assms by (induction a) auto
  moreover have "dropWhile (\<lambda>c. c \<noteq> CHR '')'') (a @ CHR '')'' # s) = CHR '')'' # s"
    using assms by (induction a) auto
  ultimately show ?thesis
    by (simp add: arg_group_scan)
qed

lemma space_run:
  assumes "blank w" and "\<not> is_space d"
  shows "rmatch (Star Whitespace # One (Exactly d) # ts) (w @ d # s) (gs, None) =
           rmatch ts s (gs, None)"
proof -
  have eq: "cls_match Whitespace = is_space"
    by (rule ext) simp
  have "dropWhile is_space (w @ d # s) = d # s"
    using assms by (induction w) (auto simp: blank_def)
  then show ?thesis
    using assms(2) star_closed [of Whitespace d ts "w @ d # s" gs] by (simp add: eq)
qed

section \<open>Facts about the substitution loop\<close>

lemma sub_loop_Nil: "match_at pat [] = None \<Longrightarrow> sub_loop pat repl [] = []"
  by (simp add: sub_loop.simps [of pat repl "[]"])

lemma sub_loop_miss:
  "match_at pat (c # s) = None \<Longrightarrow> sub_loop pat repl (c # s) = c # sub_loop pat repl s"
  by (simp add: sub_loop.simps [of pat repl "c # s"])

lemma sub_loop_hit:
  "match_at pat s = Some (gs, rest) \<Longrightarrow> length rest < length s \<Longrightarrow>
   sub_loop pat repl s = expand repl gs @ sub_loop pat repl rest"
  by (simp add: sub_loop.simps [of pat repl s])

lemma sub_loop_skip:
  "no_start_in pat t r \<Longrightarrow> sub_loop pat repl (t @ r) = t @ sub_loop pat repl r"
  by (induction t) (simp_all add: sub_loop_miss)

lemma sub_loop_no_match: "\<not> matches_in pat s \<Longrightarrow> sub_loop pat repl s = s"
  by (induction s) (simp_all add: sub_loop_Nil sub_loop_miss del: not_None_eq)

lemma match_at_lit:
  "match_at (lit l @ ts) s =
     (if starts_with l s then rmatch ts (drop (length l) s) ([], None) else None)"
  by (simp add: match_at_def rmatch_lit)

lemma starts_with_append:
  "starts_with l (u @ r) \<longleftrightarrow>
     starts_with l u \<or> (length u < length l \<and> starts_with (drop (length u) l) r)
       \<and> starts_with u l"
proof (induction l u rule: starts_with.induct)
  case (1 s) show ?case by simp
next
  case (2 c p) show ?case by simp
next
  case (3 c p d s) then show ?case by auto
qed

lemma tails_clear_drop:
  "tails_clear q r \<Longrightarrow> k < length q \<Longrightarrow> \<not> starts_with (drop k q) r"
proof (induction q arbitrary: k)
  case Nil then show ?case by simp
next
  case (Cons c q)
  then show ?case by (cases k) auto
qed

lemma no_start_in_lit:
  assumes "\<not> contains l t" and "tails_clear (tl l) r"
  shows "no_start_in (lit l @ ts) t r"
  using assms(1)
proof (induction t)
  case Nil
  show ?case by simp
next
  case (Cons c t)
  from Cons.prems have nb: "\<not> starts_with l (c # t)" and nc: "\<not> contains l t"
    by simp_all
  have "\<not> starts_with l ((c # t) @ r)"
  proof
    assume "starts_with l ((c # t) @ r)"
    with nb starts_with_append [of l "c # t" r]
    have len: "length (c # t) < length l"
      and st: "starts_with (drop (length (c # t)) l) r"
      by blast+
    from len have "length t < length (tl l)" by (cases l) simp_all
    with assms(2) have "\<not> starts_with (drop (length t) (tl l)) r"
      by (rule tails_clear_drop)
    moreover have "drop (length (c # t)) l = drop (length t) (tl l)"
      by (cases l) simp_all
    ultimately show False using st by simp
  qed
  then have "match_at (lit l @ ts) (c # t @ r) = None"
    by (simp add: match_at_lit del: starts_with.simps)
  with Cons.IH [OF nc] show ?case by simp
qed

lemma matches_in_lit: "matches_in (lit l @ ts) s \<Longrightarrow> contains l s"
proof (induction s)
  case Nil
  then show ?case by (cases l) (simp_all add: match_at_def)
next
  case (Cons c s)
  then show ?case by (auto simp: match_at_lit split: if_splits simp del: starts_with.simps)
qed

lemma ngroups_simps [simp]:
  "ngroups [] = 0"
  "ngroups (lit l @ ts) = ngroups ts"
  "ngroups (arg_group @ ts) = Suc (ngroups ts)"
  "ngroups (Star k # ts) = ngroups ts"
  "ngroups (One k # ts) = ngroups ts"
  by (simp_all add: ngroups_def lit_def arg_group_def filter_empty_conv)

lemma ngroups_lit [simp]: "ngroups (lit l) = 0"
  using ngroups_simps(2) [of l "[]"] by simp

lemma templates_ok:
  "list_all (tpl_ok (ngroups import_pat)) import_repl"
  "list_all (tpl_ok (ngroups get_set_pat)) get_set_repl"
  "list_all (tpl_ok (ngroups get_pat)) get_repl"
  "list_all (tpl_ok (ngroups post_pat)) post_repl"
  by (simp_all add: import_pat_def import_repl_def get_set_pat_def get_set_repl_def
      get_pat_def get_repl_def post_pat_def post_repl_def)

lemma re_sub_rules:
  "re_sub import_pat import_repl s = Inr (sub_loop import_pat import_repl s)"
  "re_sub get_set_pat get_set_repl s = Inr (sub_loop get_set_pat get_set_repl s)"
  "re_sub get_pat get_repl s = Inr (sub_loop get_pat get_repl s)"
  "re_sub post_pat post_repl s = Inr (sub_loop post_pat post_repl s)"
  by (simp_all add: re_sub_def templates_ok)

lemma convert_test_file_eq:
  "convert_test_file s =
     Inr (sub_loop post_pat post_repl (sub_loop get_pat get_repl
       (sub_loop get_set_pat get_set_repl (sub_loop import_pat import_repl s))))"
  by (simp add: convert_test_file_def re_sub_rules)


section \<open>What each of rules 2 to 4 matches\<close>

lemma not_space_dot [simp]: "\<not> is_space CHR ''.''"
  by (simp add: is_space_def)

lemma blank_Nil [simp]: "blank []"
  by (simp add: blank_def)

lemma lit_elim:
  assumes "rmatch (lit l @ ts) s (gs, None) = Some r"
  obtains s' where "s = l @ s'" and "rmatch ts s' (gs, None) = Some r"
proof -
  from assms have st: "starts_with l s" and m: "rmatch ts (drop (length l) s) (gs, None) = Some r"
    by (simp_all add: rmatch_lit split: if_splits)
  from st obtain s' where "s = l @ s'" by (auto simp: starts_with_split)
  with m that show thesis by simp
qed

lemma one_elim:
  assumes "rmatch (One (Exactly d) # ts) s (gs, None) = Some r"
  obtains s' where "s = d # s'" and "rmatch ts s' (gs, None) = Some r"
  using assms by (cases s) (auto split: if_splits)

lemma space_elim:
  assumes "rmatch (Star Whitespace # One (Exactly d) # ts) s (gs, None) = Some r"
    and "\<not> is_space d"
  obtains w s' where "blank w" and "s = w @ d # s'" and "rmatch ts s' (gs, None) = Some r"
proof -
  have eq: "cls_match Whitespace = is_space"
    by (rule ext) simp
  from assms star_closed [of Whitespace d ts s gs]
  have "rmatch (One (Exactly d) # ts) (dropWhile is_space s) (gs, None) = Some r"
    by (simp add: eq)
  then obtain s' where d: "dropWhile is_space s = d # s'"
    and m: "rmatch ts s' (gs, None) = Some r"
    by (rule one_elim)
  have "blank (takeWhile is_space s)"
    unfolding blank_def list_all_iff by (auto dest: set_takeWhileD)
  moreover have "s = takeWhile is_space s @ d # s'"
    using d takeWhile_dropWhile_id [of is_space s] by simp
  ultimately show thesis using m that by blast
qed

lemma arg_elim:
  assumes "rmatch (arg_group @ One (Exactly CHR '')'') # ts) s (gs, None) = Some r"
  obtains a s' where "arg_ok a" and "s = a @ CHR '')'' # s'"
    and "rmatch ts s' (gs @ [a], None) = Some r"
proof -
  let ?a = "takeWhile (\<lambda>c. c \<noteq> CHR '')'') s"
  let ?b = "dropWhile (\<lambda>c. c \<noteq> CHR '')'') s"
  from assms have ne: "?a \<noteq> []"
    and m: "rmatch (One (Exactly CHR '')'') # ts) ?b (gs @ [?a], None) = Some r"
    by (simp_all add: arg_group_scan split: if_splits)
  from m obtain s' where d: "?b = CHR '')'' # s'"
    and m': "rmatch ts s' (gs @ [?a], None) = Some r"
    by (rule one_elim)
  have "arg_ok ?a"
    using ne by (auto simp: arg_ok_def dest: set_takeWhileD)
  moreover have "s = ?a @ CHR '')'' # s'"
    using d takeWhile_dropWhile_id [of "\<lambda>c. c \<noteq> CHR '')''" s] by simp
  ultimately show thesis using m' that by blast
qed

lemma arg_group_empty [simp]:
  "rmatch (arg_group @ One (Exactly CHR '')'') # ts) (CHR '')'' # s) (gs, None) = None"
  using arg_group_run [of "[]" ts s gs] by simp

text \<open>Rule 2\<close>

lemma get_set_pat_tokens:
  "get_set_pat =
     lit chain_head @ Star Whitespace # One (Exactly CHR ''.'') # lit ''get('' @
     arg_group @ One (Exactly CHR '')'') # Star Whitespace # One (Exactly CHR ''.'') #
     lit ''set('' @ arg_group @ One (Exactly CHR '')'') # lit '';''"
  by (simp add: get_set_pat_def)

lemma get_set_at_chain:
  assumes "blank w" and "blank v" and "CHR '')'' \<notin> set p" and "CHR '')'' \<notin> set h"
  shows "match_at get_set_pat (get_set_chain w p v h @ r) =
           (if p \<noteq> [] \<and> h \<noteq> [] \<and> starts_with '';'' r then Some ([p, h], tl r) else None)"
proof (cases r)
  case Nil
  with assms show ?thesis
    by (simp add: match_at_def get_set_pat_def get_set_chain_def space_run arg_group_run)
next
  case (Cons c r')
  with assms show ?thesis
    by (simp add: match_at_def get_set_pat_def get_set_chain_def space_run arg_group_run)
qed

lemma get_set_match_elim:
  assumes "match_at get_set_pat s = Some (gs, rest)"
  obtains w p v h where "blank w" and "arg_ok p" and "blank v" and "arg_ok h"
    and "gs = [p, h]" and "s = get_set_chain w p v h @ '';'' @ rest"
proof -
  from assms have m0: "rmatch (lit chain_head @ Star Whitespace # One (Exactly CHR ''.'') #
      lit ''get('' @ arg_group @ One (Exactly CHR '')'') # Star Whitespace #
      One (Exactly CHR ''.'') # lit ''set('' @ arg_group @ One (Exactly CHR '')'') #
      lit '';'') s ([], None) = Some (gs, rest)"
    by (simp only: match_at_def get_set_pat_tokens)
  from m0 obtain s1 where e1: "s = chain_head @ s1"
    and m1: "rmatch (Star Whitespace # One (Exactly CHR ''.'') #
      lit ''get('' @ arg_group @ One (Exactly CHR '')'') # Star Whitespace #
      One (Exactly CHR ''.'') # lit ''set('' @ arg_group @ One (Exactly CHR '')'') #
      lit '';'') s1 ([], None) = Some (gs, rest)"
    by (rule lit_elim)
  from m1 obtain w s2 where w: "blank w" and e2: "s1 = w @ CHR ''.'' # s2"
    and m2: "rmatch (lit ''get('' @ arg_group @ One (Exactly CHR '')'') # Star Whitespace #
      One (Exactly CHR ''.'') # lit ''set('' @ arg_group @ One (Exactly CHR '')'') #
      lit '';'') s2 ([], None) = Some (gs, rest)"
    by (rule space_elim) simp
  from m2 obtain s3 where e3: "s2 = ''get('' @ s3"
    and m3: "rmatch (arg_group @ One (Exactly CHR '')'') # Star Whitespace #
      One (Exactly CHR ''.'') # lit ''set('' @ arg_group @ One (Exactly CHR '')'') #
      lit '';'') s3 ([], None) = Some (gs, rest)"
    by (rule lit_elim)
  from m3 obtain p s4 where p: "arg_ok p" and e4: "s3 = p @ CHR '')'' # s4"
    and m4: "rmatch (Star Whitespace #
      One (Exactly CHR ''.'') # lit ''set('' @ arg_group @ One (Exactly CHR '')'') #
      lit '';'') s4 ([] @ [p], None) = Some (gs, rest)"
    by (rule arg_elim)
  from m4 obtain v s5 where v: "blank v" and e5: "s4 = v @ CHR ''.'' # s5"
    and m5: "rmatch (lit ''set('' @ arg_group @ One (Exactly CHR '')'') #
      lit '';'') s5 ([] @ [p], None) = Some (gs, rest)"
    by (rule space_elim) simp
  from m5 obtain s6 where e6: "s5 = ''set('' @ s6"
    and m6: "rmatch (arg_group @ One (Exactly CHR '')'') #
      lit '';'') s6 ([] @ [p], None) = Some (gs, rest)"
    by (rule lit_elim)
  from m6 obtain h s7 where h: "arg_ok h" and e7: "s6 = h @ CHR '')'' # s7"
    and m7: "rmatch (lit '';'') s7 (([] @ [p]) @ [h], None) = Some (gs, rest)"
    by (rule arg_elim)
  from m7 have e8: "s7 = '';'' @ rest" and g: "gs = [p, h]"
    by (cases s7; simp split: if_splits)+
  have "s = get_set_chain w p v h @ '';'' @ rest"
    by (simp add: get_set_chain_def e1 e2 e3 e4 e5 e6 e7 e8)
  with w p v h g that show thesis by blast
qed

text \<open>Rule 3\<close>

lemma get_pat_tokens:
  "get_pat = lit chain_head @ lit ''.get('' @ arg_group @ One (Exactly CHR '')'') # lit '';''"
  by (simp add: get_pat_def)

lemma get_at_chain:
  assumes "CHR '')'' \<notin> set p"
  shows "match_at get_pat (get_chain p @ r) =
           (if p \<noteq> [] \<and> starts_with '';'' r then Some ([p], tl r) else None)"
proof (cases r)
  case Nil
  with assms show ?thesis
    by (simp add: match_at_def get_pat_def get_chain_def arg_group_run)
next
  case (Cons c r')
  with assms show ?thesis
    by (simp add: match_at_def get_pat_def get_chain_def arg_group_run)
qed

lemma get_match_elim:
  assumes "match_at get_pat s = Some (gs, rest)"
  obtains p where "arg_ok p" and "gs = [p]" and "s = get_chain p @ '';'' @ rest"
proof -
  from assms have m0: "rmatch (lit chain_head @ lit ''.get('' @ arg_group @
      One (Exactly CHR '')'') # lit '';'') s ([], None) = Some (gs, rest)"
    by (simp only: match_at_def get_pat_tokens)
  from m0 obtain s1 where e1: "s = chain_head @ s1"
    and m1: "rmatch (lit ''.get('' @ arg_group @
      One (Exactly CHR '')'') # lit '';'') s1 ([], None) = Some (gs, rest)"
    by (rule lit_elim)
  from m1 obtain s2 where e2: "s1 = ''.get('' @ s2"
    and m2: "rmatch (arg_group @
      One (Exactly CHR '')'') # lit '';'') s2 ([], None) = Some (gs, rest)"
    by (rule lit_elim)
  from m2 obtain p s3 where p: "arg_ok p" and e3: "s2 = p @ CHR '')'' # s3"
    and m3: "rmatch (lit '';'') s3 ([] @ [p], None) = Some (gs, rest)"
    by (rule arg_elim)
  from m3 have e4: "s3 = '';'' @ rest" and g: "gs = [p]"
    by (cases s3; simp split: if_splits)+
  have "s = get_chain p @ '';'' @ rest"
    by (simp add: get_chain_def e1 e2 e3 e4)
  with p g that show thesis by blast
qed

text \<open>Rule 4\<close>

lemma post_pat_tokens:
  "post_pat =
     lit chain_head @ Star Whitespace # One (Exactly CHR ''.'') # lit ''post('' @
     arg_group @ One (Exactly CHR '')'') # Star Whitespace # One (Exactly CHR ''.'') #
     lit ''set('' @ arg_group @ One (Exactly CHR '')'') # Star Whitespace #
     One (Exactly CHR ''.'') # lit ''send('' @ arg_group @ One (Exactly CHR '')'') # lit '';''"
  by (simp add: post_pat_def)

lemma post_at_chain:
  assumes "blank w" and "blank v" and "blank u"
    and "CHR '')'' \<notin> set p" and "CHR '')'' \<notin> set h" and "CHR '')'' \<notin> set d"
  shows "match_at post_pat (post_chain w p v h u d @ r) =
           (if p \<noteq> [] \<and> h \<noteq> [] \<and> d \<noteq> [] \<and> starts_with '';'' r
            then Some ([p, h, d], tl r) else None)"
proof (cases r)
  case Nil
  with assms show ?thesis
    by (simp add: match_at_def post_pat_def post_chain_def space_run arg_group_run)
next
  case (Cons c r')
  with assms show ?thesis
    by (simp add: match_at_def post_pat_def post_chain_def space_run arg_group_run)
qed

lemma post_match_elim:
  assumes "match_at post_pat s = Some (gs, rest)"
  obtains w p v h u d where "blank w" and "arg_ok p" and "blank v" and "arg_ok h"
    and "blank u" and "arg_ok d"
    and "gs = [p, h, d]" and "s = post_chain w p v h u d @ '';'' @ rest"
proof -
  from assms have m0: "rmatch (lit chain_head @ Star Whitespace # One (Exactly CHR ''.'') #
      lit ''post('' @ arg_group @ One (Exactly CHR '')'') # Star Whitespace #
      One (Exactly CHR ''.'') # lit ''set('' @ arg_group @ One (Exactly CHR '')'') #
      Star Whitespace # One (Exactly CHR ''.'') # lit ''send('' @ arg_group @
      One (Exactly CHR '')'') # lit '';'') s ([], None) = Some (gs, rest)"
    by (simp only: match_at_def post_pat_tokens)
  from m0 obtain s1 where e1: "s = chain_head @ s1"
    and m1: "rmatch (Star Whitespace # One (Exactly CHR ''.'') #
      lit ''post('' @ arg_group @ One (Exactly CHR '')'') # Star Whitespace #
      One (Exactly CHR ''.'') # lit ''set('' @ arg_group @ One (Exactly CHR '')'') #
      Star Whitespace # One (Exactly CHR ''.'') # lit ''send('' @ arg_group @
      One (Exactly CHR '')'') # lit '';'') s1 ([], None) = Some (gs, rest)"
    by (rule lit_elim)
  from m1 obtain w s2 where w: "blank w" and e2: "s1 = w @ CHR ''.'' # s2"
    and m2: "rmatch (lit ''post('' @ arg_group @ One (Exactly CHR '')'') # Star Whitespace #
      One (Exactly CHR ''.'') # lit ''set('' @ arg_group @ One (Exactly CHR '')'') #
      Star Whitespace # One (Exactly CHR ''.'') # lit ''send('' @ arg_group @
      One (Exactly CHR '')'') # lit '';'') s2 ([], None) = Some (gs, rest)"
    by (rule space_elim) simp
  from m2 obtain s3 where e3: "s2 = ''post('' @ s3"
    and m3: "rmatch (arg_group @ One (Exactly CHR '')'') # Star Whitespace #
      One (Exactly CHR ''.'') # lit ''set('' @ arg_group @ One (Exactly CHR '')'') #
      Star Whitespace # One (Exactly CHR ''.'') # lit ''send('' @ arg_group @
      One (Exactly CHR '')'') # lit '';'') s3 ([], None) = Some (gs, rest)"
    by (rule lit_elim)
  from m3 obtain p s4 where p: "arg_ok p" and e4: "s3 = p @ CHR '')'' # s4"
    and m4: "rmatch (Star Whitespace #
      One (Exactly CHR ''.'') # lit ''set('' @ arg_group @ One (Exactly CHR '')'') #
      Star Whitespace # One (Exactly CHR ''.'') # lit ''send('' @ arg_group @
      One (Exactly CHR '')'') # lit '';'') s4 ([] @ [p], None) = Some (gs, rest)"
    by (rule arg_elim)
  from m4 obtain v s5 where v: "blank v" and e5: "s4 = v @ CHR ''.'' # s5"
    and m5: "rmatch (lit ''set('' @ arg_group @ One (Exactly CHR '')'') #
      Star Whitespace # One (Exactly CHR ''.'') # lit ''send('' @ arg_group @
      One (Exactly CHR '')'') # lit '';'') s5 ([] @ [p], None) = Some (gs, rest)"
    by (rule space_elim) simp
  from m5 obtain s6 where e6: "s5 = ''set('' @ s6"
    and m6: "rmatch (arg_group @ One (Exactly CHR '')'') #
      Star Whitespace # One (Exactly CHR ''.'') # lit ''send('' @ arg_group @
      One (Exactly CHR '')'') # lit '';'') s6 ([] @ [p], None) = Some (gs, rest)"
    by (rule lit_elim)
  from m6 obtain h s7 where h: "arg_ok h" and e7: "s6 = h @ CHR '')'' # s7"
    and m7: "rmatch (Star Whitespace # One (Exactly CHR ''.'') # lit ''send('' @ arg_group @
      One (Exactly CHR '')'') # lit '';'') s7 (([] @ [p]) @ [h], None) = Some (gs, rest)"
    by (rule arg_elim)
  from m7 obtain u s8 where u: "blank u" and e8: "s7 = u @ CHR ''.'' # s8"
    and m8: "rmatch (lit ''send('' @ arg_group @
      One (Exactly CHR '')'') # lit '';'') s8 (([] @ [p]) @ [h], None) = Some (gs, rest)"
    by (rule space_elim) simp
  from m8 obtain s9 where e9: "s8 = ''send('' @ s9"
    and m9: "rmatch (arg_group @
      One (Exactly CHR '')'') # lit '';'') s9 (([] @ [p]) @ [h], None) = Some (gs, rest)"
    by (rule lit_elim)
  from m9 obtain d s10 where d: "arg_ok d" and e10: "s9 = d @ CHR '')'' # s10"
    and m10: "rmatch (lit '';'') s10 ((([] @ [p]) @ [h]) @ [d], None) = Some (gs, rest)"
    by (rule arg_elim)
  from m10 have e11: "s10 = '';'' @ rest" and g: "gs = [p, h, d]"
    by (cases s10; simp split: if_splits)+
  have "s = post_chain w p v h u d @ '';'' @ rest"
    by (simp add: post_chain_def e1 e2 e3 e4 e5 e6 e7 e8 e9 e10 e11)
  with w p v h u d g that show thesis by blast
qed

section \<open>The three shapes of the specification\<close>

text \<open>
  C1: \<^verbatim>\<open>await request(app.fetch as any).get('/foo').set(myHeaders);\<close> is converted to
  \<^verbatim>\<open>await app.request('/foo', { method: "GET", headers: myHeaders });\<close>:
  one call with the path and an options object of method "GET" and the same headers.
\<close>

theorem get_with_headers_example:
  "convert_test_file ''await request(app.fetch as any).get('/foo').set(myHeaders);'' =
     Inr ''await app.request('/foo', { method: \"GET\", headers: myHeaders });''"
  by code_simp

text \<open>
  C2: \<^verbatim>\<open>await request(app.fetch as any).post('/baz').set(h).send(payload);\<close> is
  converted to
  \<^verbatim>\<open>await app.request('/baz', { method: "POST", headers: h, body: JSON.stringify(payload) });\<close>.
\<close>

theorem post_with_body_example:
  "convert_test_file ''await request(app.fetch as any).post('/baz').set(h).send(payload);'' =
     Inr ''await app.request('/baz', { method: \"POST\", headers: h, body: JSON.stringify(payload) });''"
  by code_simp

text \<open>
  C3: \<^verbatim>\<open>await request(app.fetch as any).get('/bar');\<close> is converted to
  \<^verbatim>\<open>await app.request('/bar', { method: "GET" });\<close>: the options object has the
  method only.
\<close>

theorem get_without_headers_example:
  "convert_test_file ''await request(app.fetch as any).get('/bar');'' =
     Inr ''await app.request('/bar', { method: \"GET\" });''"
  by code_simp

section \<open>Rule 1: the import line\<close>

lemma import_tails_clear: "tails_clear (tl import_line) (import_line @ b)"
  by (simp add: import_line_def)

lemma match_at_import: "match_at import_pat (import_line @ b) = Some ([], b)"
  using match_at_lit [of import_line "[]" "import_line @ b"]
  by (simp add: import_pat_def)

lemma import_line_length: "length import_line = 33"
  by (simp add: import_line_def)

lemma import_step_absent:
  assumes "\<not> contains import_line s"
  shows "sub_loop import_pat import_repl s = s"
proof -
  have "\<not> matches_in import_pat s"
    using assms matches_in_lit [of import_line "[]" s] by (auto simp: import_pat_def)
  then show ?thesis by (rule sub_loop_no_match)
qed

lemma import_step_first:
  assumes "\<not> contains import_line a"
  shows "sub_loop import_pat import_repl (a @ import_line @ b) =
         a @ sub_loop import_pat import_repl b"
proof -
  have "no_start_in import_pat a (import_line @ b)"
    using no_start_in_lit [where ts = "[]", OF assms import_tails_clear]
    by (simp add: import_pat_def)
  then have "sub_loop import_pat import_repl (a @ import_line @ b) =
             a @ sub_loop import_pat import_repl (import_line @ b)"
    by (rule sub_loop_skip)
  also have "sub_loop import_pat import_repl (import_line @ b) =
             expand import_repl [] @ sub_loop import_pat import_repl b"
    by (rule sub_loop_hit [OF match_at_import]) (simp add: import_line_length)
  finally show ?thesis by (simp add: import_repl_def)
qed

text \<open>
  The line that follows a removed line can itself be put together by the removal: the
  text before and the text after the only import line may join to a new one, which stays.
\<close>

lemma import_removal_junction:
  "re_sub import_pat import_repl
     ''import request from 'supertest'import request from 'supertest';\<newline>;\<newline>'' =
     Inr ''import request from 'supertest';\<newline>''"
  by code_simp

text \<open>
  C4, as the code has it: the first step deletes every occurrence of the line
  \<^verbatim>\<open>import request from 'supertest';\<close> with its line break, from left to right, not the
  first one only. A text without the line is unchanged. When the line does not occur in
  \<open>a\<close>, the step on \<open>a @ import_line @ b\<close> keeps \<open>a\<close>, drops the line and goes on in
  \<open>b\<close> the same way; when the line occurs in neither \<open>a\<close> nor \<open>b\<close>, the result is
  \<open>a @ b\<close>, the input without the line.
\<close>

theorem import_removal:
  "(\<not> contains import_line s \<longrightarrow> re_sub import_pat import_repl s = Inr s) \<and>
   (\<not> contains import_line a \<longrightarrow>
      (\<exists>b'. re_sub import_pat import_repl b = Inr b' \<and>
            re_sub import_pat import_repl (a @ import_line @ b) = Inr (a @ b'))) \<and>
   (\<not> contains import_line a \<and> \<not> contains import_line b \<longrightarrow>
      re_sub import_pat import_repl (a @ import_line @ b) = Inr (a @ b))"
  by (simp add: re_sub_rules import_step_absent import_step_first)

theorem import_removal_witness:
  "\<not> contains import_line ''const a = 1;\<newline>'' \<and>
   \<not> contains import_line ''const b = 2;\<newline>'' \<and>
   re_sub import_pat import_repl ''const a = 1;\<newline>'' = Inr ''const a = 1;\<newline>'' \<and>
   re_sub import_pat import_repl
     (''const a = 1;\<newline>'' @ import_line @ ''const b = 2;\<newline>'') =
     Inr (''const a = 1;\<newline>'' @ ''const b = 2;\<newline>'')"
proof -
  have h1: "\<not> contains import_line ''const a = 1;\<newline>''" by code_simp
  have h2: "\<not> contains import_line ''const b = 2;\<newline>''" by code_simp
  from import_removal [of "''const a = 1;\<newline>''" "''const a = 1;\<newline>''" "''const b = 2;\<newline>''"]
    h1 h2 show ?thesis by blast
qed

text \<open>
  C4 as stated fails: of two import lines the second is deleted as well, where the claim
  has it left intact.
\<close>

theorem import_removal_counterexample:
  "convert_test_file
     ''import request from 'supertest';\<newline>const a = 1;\<newline>import request from 'supertest';\<newline>'' =
     Inr ''const a = 1;\<newline>'' \<and>
   convert_test_file
     ''import request from 'supertest';\<newline>const a = 1;\<newline>import request from 'supertest';\<newline>'' \<noteq>
     Inr ''const a = 1;\<newline>import request from 'supertest';\<newline>''"
  by code_simp

section \<open>Matches consume text and fill every group\<close>

text \<open>
  A match of one of the four patterns is never empty, so the branch of the loop for empty
  matches is not taken, and it has as many groups as the pattern, so every group
  reference of the templates is in range.
\<close>

lemma matches_not_empty:
  assumes "pat \<in> set [import_pat, get_set_pat, get_pat, post_pat]"
    and "match_at pat s = Some (gs, rest)"
  shows "length rest < length s \<and> length gs = ngroups pat"
proof -
  from assms consider "match_at import_pat s = Some (gs, rest)" "pat = import_pat"
    | "match_at get_set_pat s = Some (gs, rest)" "pat = get_set_pat"
    | "match_at get_pat s = Some (gs, rest)" "pat = get_pat"
    | "match_at post_pat s = Some (gs, rest)" "pat = post_pat"
    by auto
  then show ?thesis
  proof cases
    case 1
    from 1(1) have "starts_with import_line s" and "rest = drop (length import_line) s"
      and "gs = []"
      using match_at_lit [of import_line "[]" s]
      by (auto simp: import_pat_def split: if_splits)
    then show ?thesis
      using 1(2) by (auto simp: starts_with_split import_line_length import_pat_def)
  next
    case 2
    from 2(1) show ?thesis
      by (rule get_set_match_elim) (simp add: 2(2) get_set_pat_def)
  next
    case 3
    from 3(1) show ?thesis
      by (rule get_match_elim) (simp add: 3(2) get_pat_def)
  next
    case 4
    from 4(1) show ?thesis
      by (rule post_match_elim) (simp add: 4(2) post_pat_def)
  qed
qed

text \<open>Rules 3 and 4 on a chain of their shape, for all arguments.\<close>

lemma get_chain_converted:
  assumes "arg_ok p"
  shows "sub_loop get_pat get_repl (get_chain p @ '';'' @ rest) =
         get_call p @ sub_loop get_pat get_repl rest"
proof -
  have "sub_loop get_pat get_repl (get_chain p @ '';'' @ rest) =
      expand get_repl [p] @ sub_loop get_pat get_repl rest"
  proof (rule sub_loop_hit)
    show "match_at get_pat (get_chain p @ '';'' @ rest) = Some ([p], rest)"
      using assms by (simp add: get_at_chain arg_ok_def)
    show "length rest < length (get_chain p @ '';'' @ rest)" by simp
  qed
  then show ?thesis by (simp add: get_repl_def get_call_def)
qed

lemma post_chain_converted:
  assumes "blank w" and "arg_ok p" and "blank v" and "arg_ok h" and "blank u" and "arg_ok d"
  shows "sub_loop post_pat post_repl (post_chain w p v h u d @ '';'' @ rest) =
         post_call p h d @ sub_loop post_pat post_repl rest"
proof -
  have "sub_loop post_pat post_repl (post_chain w p v h u d @ '';'' @ rest) =
      expand post_repl [p, h, d] @ sub_loop post_pat post_repl rest"
  proof (rule sub_loop_hit)
    show "match_at post_pat (post_chain w p v h u d @ '';'' @ rest) = Some ([p, h, d], rest)"
      using assms by (simp add: post_at_chain arg_ok_def)
    show "length rest < length (post_chain w p v h u d @ '';'' @ rest)" by simp
  qed
  then show ?thesis by (simp add: post_repl_def post_call_def)
qed

section \<open>Text without matches\<close>

text \<open>
  C5: a text in which none of the four patterns matches at any position comes back
  unchanged, so converting it again changes nothing either. Chains with the verbs PUT,
  DELETE and PATCH are such a text (\<open>other_verbs_text\<close>).
\<close>

theorem clean_text_unchanged:
  assumes "\<not> matches_in import_pat s" and "\<not> matches_in get_set_pat s"
    and "\<not> matches_in get_pat s" and "\<not> matches_in post_pat s"
  shows "convert_test_file s = Inr s \<and>
         (\<forall>s'. convert_test_file s = Inr s' \<longrightarrow> convert_test_file s' = Inr s')"
proof -
  have "convert_test_file s = Inr s"
    using assms by (simp add: convert_test_file_eq sub_loop_no_match)
  then show ?thesis by simp
qed

theorem clean_text_unchanged_witness:
  "\<not> matches_in import_pat other_verbs_text \<and> \<not> matches_in get_set_pat other_verbs_text \<and>
   \<not> matches_in get_pat other_verbs_text \<and> \<not> matches_in post_pat other_verbs_text \<and>
   convert_test_file other_verbs_text = Inr other_verbs_text"
proof -
  have h1: "\<not> matches_in import_pat other_verbs_text" by code_simp
  have h2: "\<not> matches_in get_set_pat other_verbs_text" by code_simp
  have h3: "\<not> matches_in get_pat other_verbs_text" by code_simp
  have h4: "\<not> matches_in post_pat other_verbs_text" by code_simp
  from clean_text_unchanged [OF h1 h2 h3 h4] h1 h2 h3 h4 show ?thesis by blast
qed

section \<open>Several chains in one document\<close>

lemma starts_with_set: "starts_with l s \<Longrightarrow> set l \<subseteq> set s"
  by (auto simp: starts_with_split)

lemma contains_set: "contains l s \<Longrightarrow> set l \<subseteq> set s"
proof (induction s)
  case Nil
  then show ?case by simp
next
  case (Cons a s)
  from Cons.prems have "starts_with l (a # s) \<or> contains l s" by simp
  then show ?case
  proof
    assume "starts_with l (a # s)"
    then show ?thesis by (rule starts_with_set)
  next
    assume "contains l s"
    with Cons.IH show ?thesis by auto
  qed
qed

lemma no_chain_head_without_paren:
  "CHR '')'' \<notin> set x \<Longrightarrow> \<not> contains chain_head x"
proof
  assume "CHR '')'' \<notin> set x" and "contains chain_head x"
  from contains_set [OF this(2)] have "CHR '')'' \<in> set x"
    by (auto simp: chain_head_def)
  with \<open>CHR '')'' \<notin> set x\<close> show False by simp
qed

lemma no_start_in_append:
  "no_start_in pat (x @ y) r \<longleftrightarrow> no_start_in pat x (y @ r) \<and> no_start_in pat y r"
  by (induction x) auto

lemma head_tails_at_chain: "tails_clear (tl chain_head) (chain_head @ x)"
  by (simp add: chain_head_def)

lemma head_tails_at_call: "tails_clear (tl chain_head) (''await app.request('' @ x)"
  by (simp add: chain_head_def)

lemma head_tails_at_close: "tails_clear (tl chain_head) ('' });'' @ x)"
  by (simp add: chain_head_def)

lemma head_tails_at_end: "tails_clear q []"
  by (induction q) simp_all

text \<open>No pattern that begins with the chain head matches inside a converted call.\<close>

lemma no_start_in_call:
  assumes "arg_ok p" and "arg_ok h"
  shows "no_start_in (lit chain_head @ ts) (get_set_call p h) rest"
proof -
  let ?x = "''await app.request('' @ p @ '', { method: \"GET\", headers: '' @ h"
  have split: "get_set_call p h = ?x @ '' });''"
    by (simp add: get_set_call_def)
  have "CHR '')'' \<notin> set ?x"
    using assms by (simp add: arg_ok_def)
  then have "\<not> contains chain_head ?x"
    by (rule no_chain_head_without_paren)
  then have a: "no_start_in (lit chain_head @ ts) ?x ('' });'' @ rest)"
    using head_tails_at_close by (rule no_start_in_lit)
  have b: "no_start_in (lit chain_head @ ts) '' });'' rest"
    by (simp add: match_at_def chain_head_def)
  from a b have "no_start_in (lit chain_head @ ts) (?x @ '' });'') rest"
    by (simp only: no_start_in_append [where x = ?x and y = "'' });''"] simp_thms)
  then show ?thesis by (simp only: split)
qed

text \<open>The steps of a rule through a text and a chain or a call behind it.\<close>

lemma quiet_at_call:
  assumes "pat = lit chain_head @ ts"
    and "no_start_in pat t (get_set_call p h @ rest)" and "arg_ok p" and "arg_ok h"
  shows "sub_loop pat repl (t @ get_set_call p h @ rest) =
         t @ get_set_call p h @ sub_loop pat repl rest"
proof -
  from assms(2) have "sub_loop pat repl (t @ get_set_call p h @ rest) =
      t @ sub_loop pat repl (get_set_call p h @ rest)"
    by (rule sub_loop_skip)
  also have "sub_loop pat repl (get_set_call p h @ rest) =
      get_set_call p h @ sub_loop pat repl rest"
    unfolding assms(1) using no_start_in_call [OF assms(3,4)] by (rule sub_loop_skip)
  finally show ?thesis .
qed

lemma quiet_to_end:
  assumes "no_start_in pat t []" and "match_at pat [] = None"
  shows "sub_loop pat repl t = t"
  using sub_loop_skip [OF assms(1), of repl] sub_loop_Nil [OF assms(2), of repl] by simp

lemma no_match_at_end:
  "match_at get_set_pat [] = None" "match_at get_pat [] = None" "match_at post_pat [] = None"
  by (simp_all add: match_at_def get_set_pat_tokens get_pat_tokens post_pat_tokens
      chain_head_def)

lemma expand_get_set: "expand get_set_repl [p, h] = get_set_call p h"
  by (simp add: get_set_repl_def get_set_call_def)

lemma convert_at_chain:
  assumes "no_start_in get_set_pat t (get_set_chain w p v h @ '';'' @ rest)"
    and "blank w" and "arg_ok p" and "blank v" and "arg_ok h"
  shows "sub_loop get_set_pat get_set_repl (t @ get_set_chain w p v h @ '';'' @ rest) =
         t @ get_set_call p h @ sub_loop get_set_pat get_set_repl rest"
proof -
  let ?c = "get_set_chain w p v h @ '';'' @ rest"
  from assms(1) have "sub_loop get_set_pat get_set_repl (t @ ?c) =
      t @ sub_loop get_set_pat get_set_repl ?c"
    by (rule sub_loop_skip)
  also have "sub_loop get_set_pat get_set_repl ?c =
      expand get_set_repl [p, h] @ sub_loop get_set_pat get_set_repl rest"
  proof (rule sub_loop_hit)
    show "match_at get_set_pat ?c = Some ([p, h], rest)"
      using assms by (simp add: get_set_at_chain arg_ok_def)
    show "length rest < length ?c" by simp
  qed
  finally show ?thesis by (simp add: expand_get_set)
qed

text \<open>A text without the chain head is unmatched in front of a chain, of a call, and at
  the end of the document.\<close>

lemma unmatched_without_head:
  assumes "\<not> contains chain_head t"
  shows "unmatched t (get_set_chain w p v h @ r) (get_set_call p' h' @ r')"
    and "unmatched t [] []"
proof -
  have c: "tails_clear (tl chain_head) (get_set_chain w p v h @ r)"
    using head_tails_at_chain by (simp add: get_set_chain_def)
  have o: "tails_clear (tl chain_head) (get_set_call p' h' @ r')"
    using head_tails_at_call by (simp add: get_set_call_def)
  show "unmatched t (get_set_chain w p v h @ r) (get_set_call p' h' @ r')"
    unfolding unmatched_def get_set_pat_tokens get_pat_tokens post_pat_tokens
    using assms c o by (simp add: no_start_in_lit)
  show "unmatched t [] []"
    unfolding unmatched_def get_set_pat_tokens get_pat_tokens post_pat_tokens
    using assms head_tails_at_end by (simp add: no_start_in_lit)
qed

text \<open>
  C7, as the code has it: a document with three GET-with-headers chains, each ended by a
  semicolon, and the texts \<open>t0\<close>, \<open>t1\<close>, \<open>t2\<close>, \<open>t3\<close> before, between and behind them.
  The chains may have whitespace before \<open>.get\<close> and \<open>.set\<close>, and their arguments are any
  non-empty texts without a closing parenthesis. When the document has no import line and
  each surrounding text stays unmatched while the rules run (no match of rule 2 starts in
  it in the document; no match of rule 3 or 4 starts in it in the text that rule 2
  leaves), the conversion replaces each chain by its call and returns the surrounding
  texts as they were. The surrounding texts may contain the chain head, for example in a
  DELETE chain.
\<close>

theorem three_chains_converted:
  assumes c1: "blank w1" "arg_ok p1" "blank v1" "arg_ok h1"
    and c2: "blank w2" "arg_ok p2" "blank v2" "arg_ok h2"
    and c3: "blank w3" "arg_ok p3" "blank v3" "arg_ok h3"
    and u0: "unmatched t0
      (get_set_chain w1 p1 v1 h1 @ '';'' @ t1 @ get_set_chain w2 p2 v2 h2 @ '';'' @
       t2 @ get_set_chain w3 p3 v3 h3 @ '';'' @ t3)
      (get_set_call p1 h1 @ t1 @ get_set_call p2 h2 @ t2 @ get_set_call p3 h3 @ t3)"
    and u1: "unmatched t1
      (get_set_chain w2 p2 v2 h2 @ '';'' @ t2 @ get_set_chain w3 p3 v3 h3 @ '';'' @ t3)
      (get_set_call p2 h2 @ t2 @ get_set_call p3 h3 @ t3)"
    and u2: "unmatched t2 (get_set_chain w3 p3 v3 h3 @ '';'' @ t3) (get_set_call p3 h3 @ t3)"
    and u3: "unmatched t3 [] []"
    and i: "\<not> contains import_line
      (t0 @ get_set_chain w1 p1 v1 h1 @ '';'' @ t1 @ get_set_chain w2 p2 v2 h2 @ '';'' @
       t2 @ get_set_chain w3 p3 v3 h3 @ '';'' @ t3)"
  shows "convert_test_file
      (t0 @ get_set_chain w1 p1 v1 h1 @ '';'' @ t1 @ get_set_chain w2 p2 v2 h2 @ '';'' @
       t2 @ get_set_chain w3 p3 v3 h3 @ '';'' @ t3) =
     Inr (t0 @ get_set_call p1 h1 @ t1 @ get_set_call p2 h2 @ t2 @ get_set_call p3 h3 @ t3)"
proof -
  let ?doc = "t0 @ get_set_chain w1 p1 v1 h1 @ '';'' @ t1 @ get_set_chain w2 p2 v2 h2 @
    '';'' @ t2 @ get_set_chain w3 p3 v3 h3 @ '';'' @ t3"
  let ?out = "t0 @ get_set_call p1 h1 @ t1 @ get_set_call p2 h2 @ t2 @
    get_set_call p3 h3 @ t3"
  note a0 = u0 [unfolded unmatched_def]
  note a1 = u1 [unfolded unmatched_def]
  note a2 = u2 [unfolded unmatched_def]
  note a3 = u3 [unfolded unmatched_def]
  have s1: "sub_loop import_pat import_repl ?doc = ?doc"
    using i by (rule import_step_absent)
  have s2: "sub_loop get_set_pat get_set_repl ?doc = ?out"
    by (simp only: convert_at_chain [OF conjunct1 [OF a0] c1]
        convert_at_chain [OF conjunct1 [OF a1] c2]
        convert_at_chain [OF conjunct1 [OF a2] c3]
        quiet_to_end [OF conjunct1 [OF a3] no_match_at_end(1)])
  have s3: "sub_loop get_pat get_repl ?out = ?out"
    by (simp only:
        quiet_at_call [OF get_pat_tokens conjunct1 [OF conjunct2 [OF a0]] c1(2,4)]
        quiet_at_call [OF get_pat_tokens conjunct1 [OF conjunct2 [OF a1]] c2(2,4)]
        quiet_at_call [OF get_pat_tokens conjunct1 [OF conjunct2 [OF a2]] c3(2,4)]
        quiet_to_end [OF conjunct1 [OF conjunct2 [OF a3]] no_match_at_end(2)])
  have s4: "sub_loop post_pat post_repl ?out = ?out"
    by (simp only:
        quiet_at_call [OF post_pat_tokens conjunct2 [OF conjunct2 [OF a0]] c1(2,4)]
        quiet_at_call [OF post_pat_tokens conjunct2 [OF conjunct2 [OF a1]] c2(2,4)]
        quiet_at_call [OF post_pat_tokens conjunct2 [OF conjunct2 [OF a2]] c3(2,4)]
        quiet_to_end [OF conjunct2 [OF conjunct2 [OF a3]] no_match_at_end(3)])
  show ?thesis
    by (simp only: convert_test_file_eq s1 s2 s3 s4)
qed

theorem three_chains_converted_witness:
  "blank [] \<and> blank ''\<newline>  '' \<and> arg_ok ''`/a`'' \<and> arg_ok ''h1'' \<and> arg_ok ''`/b`'' \<and>
   arg_ok ''{ x: 1 }'' \<and> arg_ok ''url'' \<and> arg_ok ''headers'' \<and>
   unmatched ''const a = ''
     (get_set_chain [] ''`/a`'' [] ''h1'' @ '';'' @
      ''\<newline>await request(app.fetch as any).delete(`/a`).set(h1);\<newline>const b = '' @
      get_set_chain ''\<newline>  '' ''`/b`'' ''\<newline>  '' ''{ x: 1 }'' @ '';'' @
      ''\<newline>expect(a.status).toBe(200);\<newline>'' @
      get_set_chain [] ''url'' [] ''headers'' @ '';'' @ ''\<newline>// done\<newline>'')
     (get_set_call ''`/a`'' ''h1'' @
      ''\<newline>await request(app.fetch as any).delete(`/a`).set(h1);\<newline>const b = '' @
      get_set_call ''`/b`'' ''{ x: 1 }'' @ ''\<newline>expect(a.status).toBe(200);\<newline>'' @
      get_set_call ''url'' ''headers'' @ ''\<newline>// done\<newline>'') \<and>
   unmatched ''\<newline>await request(app.fetch as any).delete(`/a`).set(h1);\<newline>const b = ''
     (get_set_chain ''\<newline>  '' ''`/b`'' ''\<newline>  '' ''{ x: 1 }'' @ '';'' @
      ''\<newline>expect(a.status).toBe(200);\<newline>'' @
      get_set_chain [] ''url'' [] ''headers'' @ '';'' @ ''\<newline>// done\<newline>'')
     (get_set_call ''`/b`'' ''{ x: 1 }'' @ ''\<newline>expect(a.status).toBe(200);\<newline>'' @
      get_set_call ''url'' ''headers'' @ ''\<newline>// done\<newline>'') \<and>
   unmatched ''\<newline>expect(a.status).toBe(200);\<newline>''
     (get_set_chain [] ''url'' [] ''headers'' @ '';'' @ ''\<newline>// done\<newline>'')
     (get_set_call ''url'' ''headers'' @ ''\<newline>// done\<newline>'') \<and>
   unmatched ''\<newline>// done\<newline>'' [] [] \<and>
   convert_test_file
     (''const a = '' @ get_set_chain [] ''`/a`'' [] ''h1'' @ '';'' @
      ''\<newline>await request(app.fetch as any).delete(`/a`).set(h1);\<newline>const b = '' @
      get_set_chain ''\<newline>  '' ''`/b`'' ''\<newline>  '' ''{ x: 1 }'' @ '';'' @
      ''\<newline>expect(a.status).toBe(200);\<newline>'' @
      get_set_chain [] ''url'' [] ''headers'' @ '';'' @ ''\<newline>// done\<newline>'') =
   Inr (''const a = '' @ get_set_call ''`/a`'' ''h1'' @
      ''\<newline>await request(app.fetch as any).delete(`/a`).set(h1);\<newline>const b = '' @
      get_set_call ''`/b`'' ''{ x: 1 }'' @ ''\<newline>expect(a.status).toBe(200);\<newline>'' @
      get_set_call ''url'' ''headers'' @ ''\<newline>// done\<newline>'')"
proof -
  have b: "blank []" "blank ''\<newline>  ''" by code_simp+
  have a: "arg_ok ''`/a`''" "arg_ok ''h1''" "arg_ok ''`/b`''" "arg_ok ''{ x: 1 }''"
    "arg_ok ''url''" "arg_ok ''headers''" by code_simp+
  have u0: "unmatched ''const a = ''
     (get_set_chain [] ''`/a`'' [] ''h1'' @ '';'' @
      ''\<newline>await request(app.fetch as any).delete(`/a`).set(h1);\<newline>const b = '' @
      get_set_chain ''\<newline>  '' ''`/b`'' ''\<newline>  '' ''{ x: 1 }'' @ '';'' @
      ''\<newline>expect(a.status).toBe(200);\<newline>'' @
      get_set_chain [] ''url'' [] ''headers'' @ '';'' @ ''\<newline>// done\<newline>'')
     (get_set_call ''`/a`'' ''h1'' @
      ''\<newline>await request(app.fetch as any).delete(`/a`).set(h1);\<newline>const b = '' @
      get_set_call ''`/b`'' ''{ x: 1 }'' @ ''\<newline>expect(a.status).toBe(200);\<newline>'' @
      get_set_call ''url'' ''headers'' @ ''\<newline>// done\<newline>'')" by code_simp
  have u1: "unmatched
     ''\<newline>await request(app.fetch as any).delete(`/a`).set(h1);\<newline>const b = ''
     (get_set_chain ''\<newline>  '' ''`/b`'' ''\<newline>  '' ''{ x: 1 }'' @ '';'' @
      ''\<newline>expect(a.status).toBe(200);\<newline>'' @
      get_set_chain [] ''url'' [] ''headers'' @ '';'' @ ''\<newline>// done\<newline>'')
     (get_set_call ''`/b`'' ''{ x: 1 }'' @ ''\<newline>expect(a.status).toBe(200);\<newline>'' @
      get_set_call ''url'' ''headers'' @ ''\<newline>// done\<newline>'')" by code_simp
  have u2: "unmatched ''\<newline>expect(a.status).toBe(200);\<newline>''
     (get_set_chain [] ''url'' [] ''headers'' @ '';'' @ ''\<newline>// done\<newline>'')
     (get_set_call ''url'' ''headers'' @ ''\<newline>// done\<newline>'')" by code_simp
  have u3: "unmatched ''\<newline>// done\<newline>'' [] []" by code_simp
  have i: "\<not> contains import_line
     (''const a = '' @ get_set_chain [] ''`/a`'' [] ''h1'' @ '';'' @
      ''\<newline>await request(app.fetch as any).delete(`/a`).set(h1);\<newline>const b = '' @
      get_set_chain ''\<newline>  '' ''`/b`'' ''\<newline>  '' ''{ x: 1 }'' @ '';'' @
      ''\<newline>expect(a.status).toBe(200);\<newline>'' @
      get_set_chain [] ''url'' [] ''headers'' @ '';'' @ ''\<newline>// done\<newline>'')" by code_simp
  from three_chains_converted [OF b(1) a(1) b(1) a(2) b(2) a(3) b(2) a(4) b(1) a(5) b(1) a(6)
      u0 u1 u2 u3 i] b a u0 u1 u2 u3
  show ?thesis by blast
qed

text \<open>
  C7 as stated fails: a surrounding text in which no rule matches in the document can be
  matched later. Here the text before the second chain ends with
  \<^verbatim>\<open>await request(app.fetch as any).get(\<close>; no match of any rule starts in it in the
  document, but once rule 2 has written the call for the second chain, rule 3 matches
  from that text to the end of the call and rewrites both.
\<close>

theorem three_chains_converted_counterexample:
  "no_start_in import_pat ''\<newline>await request(app.fetch as any).get(''
     ''await request(app.fetch as any).get(b).set(h);\<newline>await request(app.fetch as any).get(c).set(h);'' \<and>
   no_start_in get_set_pat ''\<newline>await request(app.fetch as any).get(''
     ''await request(app.fetch as any).get(b).set(h);\<newline>await request(app.fetch as any).get(c).set(h);'' \<and>
   no_start_in get_pat ''\<newline>await request(app.fetch as any).get(''
     ''await request(app.fetch as any).get(b).set(h);\<newline>await request(app.fetch as any).get(c).set(h);'' \<and>
   no_start_in post_pat ''\<newline>await request(app.fetch as any).get(''
     ''await request(app.fetch as any).get(b).set(h);\<newline>await request(app.fetch as any).get(c).set(h);'' \<and>
   convert_test_file
     (''await request(app.fetch as any).get(a).set(h);'' @
      ''\<newline>await request(app.fetch as any).get('' @
      ''await request(app.fetch as any).get(b).set(h);'' @ ''\<newline>'' @
      ''await request(app.fetch as any).get(c).set(h);'') =
   Inr (''await app.request(a, { method: \"GET\", headers: h });'' @
      ''\<newline>await app.request(await app.request(b, { method: \"GET\", headers: h }, { method: \"GET\" });'' @
      ''\<newline>'' @ ''await app.request(c, { method: \"GET\", headers: h });'') \<and>
   convert_test_file
     (''await request(app.fetch as any).get(a).set(h);'' @
      ''\<newline>await request(app.fetch as any).get('' @
      ''await request(app.fetch as any).get(b).set(h);'' @ ''\<newline>'' @
      ''await request(app.fetch as any).get(c).set(h);'') \<noteq>
   Inr (''await app.request(a, { method: \"GET\", headers: h });'' @
      ''\<newline>await request(app.fetch as any).get('' @
      ''await app.request(b, { method: \"GET\", headers: h });'' @ ''\<newline>'' @
      ''await app.request(c, { method: \"GET\", headers: h });'')"
  by code_simp

section \<open>Line breaks between the chained calls\<close>

text \<open>
  C6: the pattern of rule 3 has no \<open>\s*\<close> between \<open>\)\<close> and \<open>\.get\<close>, where the
  patterns of rules 2 and 4 have one before every chained call. So the chain
  \<^verbatim>\<open>await request(app.fetch as any)\<close>, a line break, \<^verbatim>\<open>.get('/bar');\<close> is not
  converted: the text comes back as it was.
\<close>

theorem get_line_break_not_converted:
  "convert_test_file ''await request(app.fetch as any)\<newline>.get('/bar');'' =
     Inr ''await request(app.fetch as any)\<newline>.get('/bar');''"
  by code_simp

text \<open>Rules 2 and 4 do convert a chain that is written over several lines.\<close>

lemma get_set_line_breaks_converted:
  "convert_test_file
     ''await request(app.fetch as any)\<newline>  .get('/foo')\<newline>  .set(myHeaders);'' =
   Inr ''await app.request('/foo', { method: \"GET\", headers: myHeaders });''"
  by code_simp

lemma post_line_breaks_converted:
  "convert_test_file
     ''await request(app.fetch as any)\<newline>  .post('/baz')\<newline>  .set(h)\<newline>  .send(payload);'' =
   Inr ''await app.request('/baz', { method: \"POST\", headers: h, body: JSON.stringify(payload) });''"
  by code_simp

section \<open>The final semicolon\<close>



section \<open>Arguments with a closing parenthesis\<close>

lemma starts_semicolon_append:
  "starts_with '';'' (b @ CHR '')'' # r) \<longleftrightarrow> starts_with '';'' b"
  by (cases b) simp_all

lemma tl_append_semicolon:
  "starts_with '';'' b \<Longrightarrow> tl (b @ r) = tl b @ r"
  by (cases b) simp_all

text \<open>The text up to the first occurrence of a character is determined.\<close>

lemma first_split_unique:
  assumes "x @ c # y = x' @ c # y'" and "c \<notin> set x" and "c \<notin> set x'"
  shows "x = x' \<and> y = y'"
  using assms
proof (induction x arbitrary: x')
  case Nil
  then show ?case by (cases x') auto
next
  case (Cons a x)
  then show ?case by (cases x') auto
qed

lemma blank_no_dot: "blank w \<Longrightarrow> CHR ''.'' \<notin> set w"
  by (auto simp: blank_def list_all_iff)

lemma get_set_match_iff:
  "match_at get_set_pat s = Some (gs, rest) \<longleftrightarrow>
     (\<exists>w p v h. blank w \<and> arg_ok p \<and> blank v \<and> arg_ok h \<and> gs = [p, h] \<and>
        s = get_set_chain w p v h @ '';'' @ rest)"
proof
  assume "match_at get_set_pat s = Some (gs, rest)"
  then show "\<exists>w p v h. blank w \<and> arg_ok p \<and> blank v \<and> arg_ok h \<and> gs = [p, h] \<and>
      s = get_set_chain w p v h @ '';'' @ rest"
    by (rule get_set_match_elim) blast
next
  assume "\<exists>w p v h. blank w \<and> arg_ok p \<and> blank v \<and> arg_ok h \<and> gs = [p, h] \<and>
      s = get_set_chain w p v h @ '';'' @ rest"
  then show "match_at get_set_pat s = Some (gs, rest)"
    by (auto simp: get_set_at_chain arg_ok_def)
qed

lemma get_match_iff:
  "match_at get_pat s = Some (gs, rest) \<longleftrightarrow>
     (\<exists>p. arg_ok p \<and> gs = [p] \<and> s = get_chain p @ '';'' @ rest)"
proof
  assume "match_at get_pat s = Some (gs, rest)"
  then show "\<exists>p. arg_ok p \<and> gs = [p] \<and> s = get_chain p @ '';'' @ rest"
    by (rule get_match_elim) blast
next
  assume "\<exists>p. arg_ok p \<and> gs = [p] \<and> s = get_chain p @ '';'' @ rest"
  then show "match_at get_pat s = Some (gs, rest)"
    by (auto simp: get_at_chain arg_ok_def)
qed

lemma post_match_iff:
  "match_at post_pat s = Some (gs, rest) \<longleftrightarrow>
     (\<exists>w p v h u d. blank w \<and> arg_ok p \<and> blank v \<and> arg_ok h \<and> blank u \<and> arg_ok d \<and>
        gs = [p, h, d] \<and> s = post_chain w p v h u d @ '';'' @ rest)"
proof
  assume "match_at post_pat s = Some (gs, rest)"
  then show "\<exists>w p v h u d. blank w \<and> arg_ok p \<and> blank v \<and> arg_ok h \<and> blank u \<and>
      arg_ok d \<and> gs = [p, h, d] \<and> s = post_chain w p v h u d @ '';'' @ rest"
    by (rule post_match_elim) blast
next
  assume "\<exists>w p v h u d. blank w \<and> arg_ok p \<and> blank v \<and> arg_ok h \<and> blank u \<and>
      arg_ok d \<and> gs = [p, h, d] \<and> s = post_chain w p v h u d @ '';'' @ rest"
  then show "match_at post_pat s = Some (gs, rest)"
    by (auto simp: post_at_chain arg_ok_def)
qed

text \<open>The path of rule 2: whatever follows \<open>.get(\<close>, the path is read up to the first
  closing parenthesis.\<close>

lemma get_set_path_cut:
  assumes "blank w" and "CHR '')'' \<notin> set a"
  shows "match_at get_set_pat (chain_head @ w @ ''.get('' @ a @ '')'' @ x) = Some (gs, rest)
     \<longleftrightarrow> a \<noteq> [] \<and>
        (\<exists>v h. blank v \<and> arg_ok h \<and> gs = [a, h] \<and> x = v @ ''.set('' @ h @ '');'' @ rest)"
proof
  assume "match_at get_set_pat (chain_head @ w @ ''.get('' @ a @ '')'' @ x) = Some (gs, rest)"
  then obtain w' p v h where wf: "blank w'" "arg_ok p" "blank v" "arg_ok h"
    and g: "gs = [p, h]"
    and e: "chain_head @ w @ ''.get('' @ a @ '')'' @ x = get_set_chain w' p v h @ '';'' @ rest"
    by (rule get_set_match_elim)
  from e have e1: "w @ CHR ''.'' # (''get('' @ a @ '')'' @ x) =
      w' @ CHR ''.'' # (''get('' @ p @ '')'' @ v @ ''.set('' @ h @ '');'' @ rest)"
    by (simp add: get_set_chain_def)
  from first_split_unique [OF e1 blank_no_dot [OF assms(1)] blank_no_dot [OF wf(1)]]
  have e2: "a @ CHR '')'' # x = p @ CHR '')'' # (v @ ''.set('' @ h @ '');'' @ rest)"
    by simp
  from wf(2) have "CHR '')'' \<notin> set p" by (simp add: arg_ok_def)
  from first_split_unique [OF e2 assms(2) this]
  have "a = p" and "x = v @ ''.set('' @ h @ '');'' @ rest" by simp_all
  with wf g show "a \<noteq> [] \<and>
      (\<exists>v h. blank v \<and> arg_ok h \<and> gs = [a, h] \<and> x = v @ ''.set('' @ h @ '');'' @ rest)"
    by (auto simp: arg_ok_def)
next
  assume "a \<noteq> [] \<and>
      (\<exists>v h. blank v \<and> arg_ok h \<and> gs = [a, h] \<and> x = v @ ''.set('' @ h @ '');'' @ rest)"
  then obtain v h where wf: "a \<noteq> []" "blank v" "arg_ok h" and g: "gs = [a, h]"
    and x: "x = v @ ''.set('' @ h @ '');'' @ rest" by blast
  have eq: "chain_head @ w @ ''.get('' @ a @ '')'' @ x =
      get_set_chain w a v h @ '';'' @ rest"
    by (simp add: get_set_chain_def x)
  have "match_at get_set_pat (get_set_chain w a v h @ '';'' @ rest) = Some ([a, h], rest)"
    using assms wf by (simp add: get_set_at_chain arg_ok_def)
  then show
    "match_at get_set_pat (chain_head @ w @ ''.get('' @ a @ '')'' @ x) = Some (gs, rest)"
    by (simp only: eq g)
qed

text \<open>The path and the headers of rule 4.\<close>

lemma post_path_cut:
  assumes "blank w" and "CHR '')'' \<notin> set a"
  shows "match_at post_pat (chain_head @ w @ ''.post('' @ a @ '')'' @ x) = Some (gs, rest)
     \<longleftrightarrow> a \<noteq> [] \<and>
        (\<exists>v h u d. blank v \<and> arg_ok h \<and> blank u \<and> arg_ok d \<and> gs = [a, h, d] \<and>
           x = v @ ''.set('' @ h @ '')'' @ u @ ''.send('' @ d @ '');'' @ rest)"
proof
  assume "match_at post_pat (chain_head @ w @ ''.post('' @ a @ '')'' @ x) = Some (gs, rest)"
  then obtain w' p v h u d where wf: "blank w'" "arg_ok p" "blank v" "arg_ok h" "blank u"
      "arg_ok d"
    and g: "gs = [p, h, d]"
    and e: "chain_head @ w @ ''.post('' @ a @ '')'' @ x =
      post_chain w' p v h u d @ '';'' @ rest"
    by (rule post_match_elim)
  from e have e1: "w @ CHR ''.'' # (''post('' @ a @ '')'' @ x) =
      w' @ CHR ''.'' # (''post('' @ p @ '')'' @ v @ ''.set('' @ h @ '')'' @ u @ ''.send('' @
        d @ '');'' @ rest)"
    by (simp add: post_chain_def)
  from first_split_unique [OF e1 blank_no_dot [OF assms(1)] blank_no_dot [OF wf(1)]]
  have e2: "a @ CHR '')'' # x =
      p @ CHR '')'' # (v @ ''.set('' @ h @ '')'' @ u @ ''.send('' @ d @ '');'' @ rest)"
    by simp
  from wf(2) have "CHR '')'' \<notin> set p" by (simp add: arg_ok_def)
  from first_split_unique [OF e2 assms(2) this]
  have "a = p" and "x = v @ ''.set('' @ h @ '')'' @ u @ ''.send('' @ d @ '');'' @ rest"
    by simp_all
  with wf g show "a \<noteq> [] \<and>
      (\<exists>v h u d. blank v \<and> arg_ok h \<and> blank u \<and> arg_ok d \<and> gs = [a, h, d] \<and>
         x = v @ ''.set('' @ h @ '')'' @ u @ ''.send('' @ d @ '');'' @ rest)"
    by (auto simp: arg_ok_def)
next
  assume "a \<noteq> [] \<and>
      (\<exists>v h u d. blank v \<and> arg_ok h \<and> blank u \<and> arg_ok d \<and> gs = [a, h, d] \<and>
         x = v @ ''.set('' @ h @ '')'' @ u @ ''.send('' @ d @ '');'' @ rest)"
  then obtain v h u d where wf: "a \<noteq> []" "blank v" "arg_ok h" "blank u" "arg_ok d"
    and g: "gs = [a, h, d]"
    and x: "x = v @ ''.set('' @ h @ '')'' @ u @ ''.send('' @ d @ '');'' @ rest" by blast
  have eq: "chain_head @ w @ ''.post('' @ a @ '')'' @ x =
      post_chain w a v h u d @ '';'' @ rest"
    by (simp add: post_chain_def x)
  have "match_at post_pat (post_chain w a v h u d @ '';'' @ rest) = Some ([a, h, d], rest)"
    using assms wf by (simp add: post_at_chain arg_ok_def)
  then show
    "match_at post_pat (chain_head @ w @ ''.post('' @ a @ '')'' @ x) = Some (gs, rest)"
    by (simp only: eq g)
qed

lemma post_headers_cut:
  assumes "blank w" and "arg_ok p" and "blank v" and "CHR '')'' \<notin> set a"
  shows "match_at post_pat
       (chain_head @ w @ ''.post('' @ p @ '')'' @ v @ ''.set('' @ a @ '')'' @ x) =
       Some (gs, rest)
     \<longleftrightarrow> a \<noteq> [] \<and>
        (\<exists>u d. blank u \<and> arg_ok d \<and> gs = [p, a, d] \<and> x = u @ ''.send('' @ d @ '');'' @ rest)"
proof
  assume "match_at post_pat
      (chain_head @ w @ ''.post('' @ p @ '')'' @ v @ ''.set('' @ a @ '')'' @ x) =
      Some (gs, rest)"
  then obtain w' p' v' h u d where wf: "blank w'" "arg_ok p'" "blank v'" "arg_ok h" "blank u"
      "arg_ok d"
    and g: "gs = [p', h, d]"
    and e: "chain_head @ w @ ''.post('' @ p @ '')'' @ v @ ''.set('' @ a @ '')'' @ x =
      post_chain w' p' v' h u d @ '';'' @ rest"
    by (rule post_match_elim)
  from e have e1: "w @ CHR ''.'' # (''post('' @ p @ '')'' @ v @ ''.set('' @ a @ '')'' @ x) =
      w' @ CHR ''.'' # (''post('' @ p' @ '')'' @ v' @ ''.set('' @ h @ '')'' @ u @ ''.send('' @
        d @ '');'' @ rest)"
    by (simp add: post_chain_def)
  from first_split_unique [OF e1 blank_no_dot [OF assms(1)] blank_no_dot [OF wf(1)]]
  have e2: "p @ CHR '')'' # (v @ ''.set('' @ a @ '')'' @ x) =
      p' @ CHR '')'' # (v' @ ''.set('' @ h @ '')'' @ u @ ''.send('' @ d @ '');'' @ rest)"
    by simp
  from assms(2) wf(2) have np: "CHR '')'' \<notin> set p" "CHR '')'' \<notin> set p'"
    by (simp_all add: arg_ok_def)
  from first_split_unique [OF e2 np]
  have pp: "p = p'" and e3: "v @ CHR ''.'' # (''set('' @ a @ '')'' @ x) =
      v' @ CHR ''.'' # (''set('' @ h @ '')'' @ u @ ''.send('' @ d @ '');'' @ rest)"
    by simp_all
  from first_split_unique [OF e3 blank_no_dot [OF assms(3)] blank_no_dot [OF wf(3)]]
  have e4: "a @ CHR '')'' # x = h @ CHR '')'' # (u @ ''.send('' @ d @ '');'' @ rest)"
    by simp
  from wf(4) have "CHR '')'' \<notin> set h" by (simp add: arg_ok_def)
  from first_split_unique [OF e4 assms(4) this]
  have "a = h" and "x = u @ ''.send('' @ d @ '');'' @ rest" by simp_all
  with wf g pp show "a \<noteq> [] \<and>
      (\<exists>u d. blank u \<and> arg_ok d \<and> gs = [p, a, d] \<and> x = u @ ''.send('' @ d @ '');'' @ rest)"
    by (auto simp: arg_ok_def)
next
  assume "a \<noteq> [] \<and>
      (\<exists>u d. blank u \<and> arg_ok d \<and> gs = [p, a, d] \<and> x = u @ ''.send('' @ d @ '');'' @ rest)"
  then obtain u d where wf: "a \<noteq> []" "blank u" "arg_ok d" and g: "gs = [p, a, d]"
    and x: "x = u @ ''.send('' @ d @ '');'' @ rest" by blast
  have eq: "chain_head @ w @ ''.post('' @ p @ '')'' @ v @ ''.set('' @ a @ '')'' @ x =
      post_chain w p v a u d @ '';'' @ rest"
    by (simp add: post_chain_def x)
  have "match_at post_pat (post_chain w p v a u d @ '';'' @ rest) = Some ([p, a, d], rest)"
    using assms wf by (simp add: post_at_chain arg_ok_def)
  then show "match_at post_pat
      (chain_head @ w @ ''.post('' @ p @ '')'' @ v @ ''.set('' @ a @ '')'' @ x) =
      Some (gs, rest)"
    by (simp only: eq g)
qed

text \<open>
  C9, as the code has it: each of rules 2 to 4 matches at a position exactly when the text
  there is a chain of the rule's shape whose arguments are non-empty and have no closing
  parenthesis, followed by \<open>;\<close>, and the captured texts are these arguments. So a group
  \<open>([^\)]+)\<close> reads an argument up to the first closing parenthesis behind the opening
  one of its call, whatever the argument was meant to be. With the text behind that
  opening parenthesis written as \<open>a\<close>, a closing parenthesis and the rest, where \<open>a\<close> has
  no closing parenthesis: for the last argument of a chain (the path of rule 3, the
  headers of rule 2, the payload of rule 4) the rule matches at the chain exactly when
  \<open>a\<close> is not empty and the rest begins with \<open>;\<close>; for the path of rule 2, and the path
  and the headers of rule 4, it matches exactly when \<open>a\<close> is not empty and the rest is
  what the pattern goes on with. In each case the argument of the rewritten call is \<open>a\<close>.
  \<^verbatim>\<open>await request(app.fetch as any).get(f('/x'));\<close> is matched by no rule and comes back
  as it was; \<^verbatim>\<open>await request(app.fetch as any).get(a);b).set(h);\<close>, a chain of the shape
  of rule 2 with a closing parenthesis in its path, is rewritten by rule 3 with the path
  cut.
\<close>

theorem captures_stop_at_paren:
  "convert_test_file ''await request(app.fetch as any).get(f('/x'));'' =
     Inr ''await request(app.fetch as any).get(f('/x'));'' \<and>
   convert_test_file ''await request(app.fetch as any).get(a);b).set(h);'' =
     Inr ''await app.request(a, { method: \"GET\" });b).set(h);'' \<and>
   (pat \<in> set [get_set_pat, get_pat, post_pat] \<and> match_at pat s = Some (gs, rest) \<longrightarrow>
      list_all arg_ok gs) \<and>
   (match_at get_set_pat s = Some (gs, rest) \<longleftrightarrow>
      (\<exists>w p v h. blank w \<and> arg_ok p \<and> blank v \<and> arg_ok h \<and> gs = [p, h] \<and>
         s = get_set_chain w p v h @ '';'' @ rest)) \<and>
   (match_at get_pat s = Some (gs, rest) \<longleftrightarrow>
      (\<exists>p. arg_ok p \<and> gs = [p] \<and> s = get_chain p @ '';'' @ rest)) \<and>
   (match_at post_pat s = Some (gs, rest) \<longleftrightarrow>
      (\<exists>w p v h u d. blank w \<and> arg_ok p \<and> blank v \<and> arg_ok h \<and> blank u \<and> arg_ok d \<and>
         gs = [p, h, d] \<and> s = post_chain w p v h u d @ '';'' @ rest)) \<and>
   (CHR '')'' \<notin> set a3 \<longrightarrow>
      match_at get_pat (get_chain (a3 @ '')'' @ b3) @ '';'' @ r3) =
        (if a3 \<noteq> [] \<and> starts_with '';'' b3
         then Some ([a3], tl b3 @ '');'' @ r3) else None)) \<and>
   (blank w2 \<and> blank v2 \<and> arg_ok p2 \<and> CHR '')'' \<notin> set a2 \<longrightarrow>
      match_at get_set_pat (get_set_chain w2 p2 v2 (a2 @ '')'' @ b2) @ '';'' @ r2) =
        (if a2 \<noteq> [] \<and> starts_with '';'' b2
         then Some ([p2, a2], tl b2 @ '');'' @ r2) else None)) \<and>
   (blank w4 \<and> blank v4 \<and> blank u4 \<and> arg_ok p4 \<and> arg_ok h4 \<and> CHR '')'' \<notin> set a4 \<longrightarrow>
      match_at post_pat (post_chain w4 p4 v4 h4 u4 (a4 @ '')'' @ b4) @ '';'' @ r4) =
        (if a4 \<noteq> [] \<and> starts_with '';'' b4
         then Some ([p4, h4, a4], tl b4 @ '');'' @ r4) else None)) \<and>
   (blank w5 \<and> CHR '')'' \<notin> set a5 \<longrightarrow>
      (match_at get_set_pat (chain_head @ w5 @ ''.get('' @ a5 @ '')'' @ x5) = Some (g5, r5)
       \<longleftrightarrow> a5 \<noteq> [] \<and>
          (\<exists>v h. blank v \<and> arg_ok h \<and> g5 = [a5, h] \<and>
             x5 = v @ ''.set('' @ h @ '');'' @ r5))) \<and>
   (blank w6 \<and> CHR '')'' \<notin> set a6 \<longrightarrow>
      (match_at post_pat (chain_head @ w6 @ ''.post('' @ a6 @ '')'' @ x6) = Some (g6, r6)
       \<longleftrightarrow> a6 \<noteq> [] \<and>
          (\<exists>v h u d. blank v \<and> arg_ok h \<and> blank u \<and> arg_ok d \<and> g6 = [a6, h, d] \<and>
             x6 = v @ ''.set('' @ h @ '')'' @ u @ ''.send('' @ d @ '');'' @ r6))) \<and>
   (blank w7 \<and> arg_ok p7 \<and> blank v7 \<and> CHR '')'' \<notin> set a7 \<longrightarrow>
      (match_at post_pat
         (chain_head @ w7 @ ''.post('' @ p7 @ '')'' @ v7 @ ''.set('' @ a7 @ '')'' @ x7) =
         Some (g7, r7)
       \<longleftrightarrow> a7 \<noteq> [] \<and>
          (\<exists>u d. blank u \<and> arg_ok d \<and> g7 = [p7, a7, d] \<and>
             x7 = u @ ''.send('' @ d @ '');'' @ r7)))"
proof (intro conjI impI)
  show "convert_test_file ''await request(app.fetch as any).get(f('/x'));'' =
     Inr ''await request(app.fetch as any).get(f('/x'));''"
    by code_simp
next
  show "convert_test_file ''await request(app.fetch as any).get(a);b).set(h);'' =
     Inr ''await app.request(a, { method: \"GET\" });b).set(h);''"
    by code_simp
next
  assume "pat \<in> set [get_set_pat, get_pat, post_pat] \<and> match_at pat s = Some (gs, rest)"
  then consider "match_at get_set_pat s = Some (gs, rest)"
    | "match_at get_pat s = Some (gs, rest)" | "match_at post_pat s = Some (gs, rest)"
    by auto
  then show "list_all arg_ok gs"
  proof cases
    case 1 then show ?thesis by (rule get_set_match_elim) simp
  next
    case 2 then show ?thesis by (rule get_match_elim) simp
  next
    case 3 then show ?thesis by (rule post_match_elim) simp
  qed
next
  show "match_at get_set_pat s = Some (gs, rest) \<longleftrightarrow>
      (\<exists>w p v h. blank w \<and> arg_ok p \<and> blank v \<and> arg_ok h \<and> gs = [p, h] \<and>
         s = get_set_chain w p v h @ '';'' @ rest)"
    by (rule get_set_match_iff)
next
  show "match_at get_pat s = Some (gs, rest) \<longleftrightarrow>
      (\<exists>p. arg_ok p \<and> gs = [p] \<and> s = get_chain p @ '';'' @ rest)"
    by (rule get_match_iff)
next
  show "match_at post_pat s = Some (gs, rest) \<longleftrightarrow>
      (\<exists>w p v h u d. blank w \<and> arg_ok p \<and> blank v \<and> arg_ok h \<and> blank u \<and> arg_ok d \<and>
         gs = [p, h, d] \<and> s = post_chain w p v h u d @ '';'' @ rest)"
    by (rule post_match_iff)
next
  assume a: "CHR '')'' \<notin> set a3"
  have "get_chain (a3 @ '')'' @ b3) @ '';'' @ r3 = get_chain a3 @ b3 @ '');'' @ r3"
    by (simp add: get_chain_def)
  with a show "match_at get_pat (get_chain (a3 @ '')'' @ b3) @ '';'' @ r3) =
      (if a3 \<noteq> [] \<and> starts_with '';'' b3 then Some ([a3], tl b3 @ '');'' @ r3) else None)"
    using starts_semicolon_append [of b3 "CHR '';'' # r3"]
      tl_append_semicolon [of b3 "'');'' @ r3"]
    by (simp add: get_at_chain del: starts_with.simps)
next
  assume a: "blank w2 \<and> blank v2 \<and> arg_ok p2 \<and> CHR '')'' \<notin> set a2"
  have "get_set_chain w2 p2 v2 (a2 @ '')'' @ b2) @ '';'' @ r2 =
      get_set_chain w2 p2 v2 a2 @ b2 @ '');'' @ r2"
    by (simp add: get_set_chain_def)
  with a show "match_at get_set_pat (get_set_chain w2 p2 v2 (a2 @ '')'' @ b2) @ '';'' @ r2) =
      (if a2 \<noteq> [] \<and> starts_with '';'' b2 then Some ([p2, a2], tl b2 @ '');'' @ r2)
       else None)"
    using starts_semicolon_append [of b2 "CHR '';'' # r2"]
      tl_append_semicolon [of b2 "'');'' @ r2"]
    by (simp add: get_set_at_chain arg_ok_def del: starts_with.simps)
next
  assume a: "blank w4 \<and> blank v4 \<and> blank u4 \<and> arg_ok p4 \<and> arg_ok h4 \<and> CHR '')'' \<notin> set a4"
  have "post_chain w4 p4 v4 h4 u4 (a4 @ '')'' @ b4) @ '';'' @ r4 =
      post_chain w4 p4 v4 h4 u4 a4 @ b4 @ '');'' @ r4"
    by (simp add: post_chain_def)
  with a show "match_at post_pat (post_chain w4 p4 v4 h4 u4 (a4 @ '')'' @ b4) @ '';'' @ r4) =
      (if a4 \<noteq> [] \<and> starts_with '';'' b4 then Some ([p4, h4, a4], tl b4 @ '');'' @ r4)
       else None)"
    using starts_semicolon_append [of b4 "CHR '';'' # r4"]
      tl_append_semicolon [of b4 "'');'' @ r4"]
    by (simp add: post_at_chain arg_ok_def del: starts_with.simps)
next
  assume "blank w5 \<and> CHR '')'' \<notin> set a5"
  then show "match_at get_set_pat (chain_head @ w5 @ ''.get('' @ a5 @ '')'' @ x5) =
      Some (g5, r5) \<longleftrightarrow> a5 \<noteq> [] \<and>
      (\<exists>v h. blank v \<and> arg_ok h \<and> g5 = [a5, h] \<and> x5 = v @ ''.set('' @ h @ '');'' @ r5)"
    by (intro get_set_path_cut) simp_all
next
  assume "blank w6 \<and> CHR '')'' \<notin> set a6"
  then show "match_at post_pat (chain_head @ w6 @ ''.post('' @ a6 @ '')'' @ x6) =
      Some (g6, r6) \<longleftrightarrow> a6 \<noteq> [] \<and>
      (\<exists>v h u d. blank v \<and> arg_ok h \<and> blank u \<and> arg_ok d \<and> g6 = [a6, h, d] \<and>
         x6 = v @ ''.set('' @ h @ '')'' @ u @ ''.send('' @ d @ '');'' @ r6)"
    by (intro post_path_cut) simp_all
next
  assume "blank w7 \<and> arg_ok p7 \<and> blank v7 \<and> CHR '')'' \<notin> set a7"
  then show "match_at post_pat
      (chain_head @ w7 @ ''.post('' @ p7 @ '')'' @ v7 @ ''.set('' @ a7 @ '')'' @ x7) =
      Some (g7, r7) \<longleftrightarrow> a7 \<noteq> [] \<and>
      (\<exists>u d. blank u \<and> arg_ok d \<and> g7 = [p7, a7, d] \<and> x7 = u @ ''.send('' @ d @ '');'' @ r7)"
    by (intro post_headers_cut) simp_all
qed

theorem captures_stop_at_paren_witness:
  "get_pat \<in> set [get_set_pat, get_pat, post_pat] \<and>
   match_at get_pat ''await request(app.fetch as any).get(a);x'' = Some ([''a''], ''x'') \<and>
   list_all arg_ok [''a''] \<and>
   CHR '')'' \<notin> set ''f('/x'' \<and> blank '' '' \<and> arg_ok ''p'' \<and> arg_ok ''h'' \<and>
   blank [] \<and> CHR '')'' \<notin> set ''a'' \<and>
   match_at get_pat (get_chain (''f('/x'' @ '')'' @ []) @ '';'' @ []) = None \<and>
   match_at get_set_pat
     (get_set_chain '' '' ''p'' '' '' (''f('/x'' @ '')'' @ []) @ '';'' @ []) = None \<and>
   match_at post_pat
     (post_chain '' '' ''p'' '' '' ''h'' '' '' (''f('/x'' @ '')'' @ []) @ '';'' @ []) = None \<and>
   match_at get_set_pat (chain_head @ [] @ ''.get('' @ ''a'' @ '')'' @ ''.set(h);'') =
     Some ([''a'', ''h''], []) \<and>
   match_at post_pat (chain_head @ [] @ ''.post('' @ ''a'' @ '')'' @ ''.set(h).send(d);'') =
     Some ([''a'', ''h'', ''d''], []) \<and>
   match_at post_pat
     (chain_head @ [] @ ''.post('' @ ''p'' @ '')'' @ [] @ ''.set('' @ ''a'' @ '')'' @
      ''.send(d);'') = Some ([''p'', ''a'', ''d''], [])"
proof -
  have m: "get_pat \<in> set [get_set_pat, get_pat, post_pat]" by simp
  have g: "match_at get_pat ''await request(app.fetch as any).get(a);x'' =
      Some ([''a''], ''x'')" by code_simp
  have n: "CHR '')'' \<notin> set ''f('/x''" by simp
  have b: "blank '' ''" by code_simp
  have a: "arg_ok ''p''" "arg_ok ''h''" "arg_ok ''d''" by code_simp+
  have b0: "blank []" by code_simp
  have n5: "CHR '')'' \<notin> set ''a''" by simp
  note T = captures_stop_at_paren [where pat = get_pat and
      s = "''await request(app.fetch as any).get(a);x''" and gs = "[''a'']" and
      rest = "''x''" and ?a3.0 = "''f('/x''" and ?b3.0 = "[]" and ?r3.0 = "[]" and
      ?w2.0 = "'' ''" and ?v2.0 = "'' ''" and ?p2.0 = "''p''" and ?a2.0 = "''f('/x''" and
      ?b2.0 = "[]" and ?r2.0 = "[]" and ?w4.0 = "'' ''" and ?v4.0 = "'' ''" and
      ?u4.0 = "'' ''" and ?p4.0 = "''p''" and ?h4.0 = "''h''" and ?a4.0 = "''f('/x''" and
      ?b4.0 = "[]" and ?r4.0 = "[]" and
      ?w5.0 = "[]" and ?a5.0 = "''a''" and ?x5.0 = "''.set(h);''" and
      ?g5.0 = "[''a'', ''h'']" and ?r5.0 = "[]" and
      ?w6.0 = "[]" and ?a6.0 = "''a''" and ?x6.0 = "''.set(h).send(d);''" and
      ?g6.0 = "[''a'', ''h'', ''d'']" and ?r6.0 = "[]" and
      ?w7.0 = "[]" and ?p7.0 = "''p''" and ?v7.0 = "[]" and ?a7.0 = "''a''" and
      ?x7.0 = "''.send(d);''" and ?g7.0 = "[''p'', ''a'', ''d'']" and ?r7.0 = "[]"]
  note R = T [THEN conjunct2, THEN conjunct2]
  from R [THEN conjunct1] m g have k1: "list_all arg_ok [''a'']" by blast
  note R7 = R [THEN conjunct2, THEN conjunct2, THEN conjunct2, THEN conjunct2]
  from R7 [THEN conjunct1] n
  have k3: "match_at get_pat (get_chain (''f('/x'' @ '')'' @ []) @ '';'' @ []) = None"
    by simp
  from R7 [THEN conjunct2, THEN conjunct1] n b a
  have k2: "match_at get_set_pat
      (get_set_chain '' '' ''p'' '' '' (''f('/x'' @ '')'' @ []) @ '';'' @ []) = None"
    by simp
  from R7 [THEN conjunct2, THEN conjunct2, THEN conjunct1] n b a
  have k4: "match_at post_pat
      (post_chain '' '' ''p'' '' '' ''h'' '' '' (''f('/x'' @ '')'' @ []) @ '';'' @ []) = None"
    by simp
  note R10 = R7 [THEN conjunct2, THEN conjunct2, THEN conjunct2]
  have e5: "''a'' \<noteq> [] \<and> (\<exists>v h. blank v \<and> arg_ok h \<and> [''a'', ''h''] = [''a'', h] \<and>
      ''.set(h);'' = v @ ''.set('' @ h @ '');'' @ [])"
    using b0 a by (intro conjI exI [of _ "[]"] exI [of _ "''h''"]) simp_all
  with R10 [THEN conjunct1] b0 n5
  have k5: "match_at get_set_pat (chain_head @ [] @ ''.get('' @ ''a'' @ '')'' @ ''.set(h);'') =
      Some ([''a'', ''h''], [])"
    by blast
  have e6: "''a'' \<noteq> [] \<and> (\<exists>v h u d. blank v \<and> arg_ok h \<and> blank u \<and> arg_ok d \<and>
      [''a'', ''h'', ''d''] = [''a'', h, d] \<and>
      ''.set(h).send(d);'' = v @ ''.set('' @ h @ '')'' @ u @ ''.send('' @ d @ '');'' @ [])"
    using b0 a
    by (intro conjI exI [of _ "[]"] exI [of _ "''h''"] exI [of _ "''d''"]) simp_all
  with R10 [THEN conjunct2, THEN conjunct1] b0 n5
  have k6: "match_at post_pat
      (chain_head @ [] @ ''.post('' @ ''a'' @ '')'' @ ''.set(h).send(d);'') =
      Some ([''a'', ''h'', ''d''], [])"
    by blast
  have e7: "''a'' \<noteq> [] \<and> (\<exists>u d. blank u \<and> arg_ok d \<and>
      [''p'', ''a'', ''d''] = [''p'', ''a'', d] \<and> ''.send(d);'' = u @ ''.send('' @ d @ '');'' @ [])"
    using b0 a by (intro conjI exI [of _ "[]"] exI [of _ "''d''"]) simp_all
  with R10 [THEN conjunct2, THEN conjunct2] b0 a(1) n5
  have k7: "match_at post_pat
      (chain_head @ [] @ ''.post('' @ ''p'' @ '')'' @ [] @ ''.set('' @ ''a'' @ '')'' @
       ''.send(d);'') = Some ([''p'', ''a'', ''d''], [])"
    by blast
  from m g k1 n b a(1,2) b0 n5 k3 k2 k4 k5 k6 k7 show ?thesis
    by (intro conjI)
qed

text \<open>
  C9 as stated fails: in \<^verbatim>\<open>await request(app.fetch as any).get('/a);b');\<close> the path
  contains a closing parenthesis, and rule 3 rewrites the chain with the path cut at it.
\<close>

theorem captures_stop_at_paren_counterexample:
  "convert_test_file ''await request(app.fetch as any).get('/a);b');'' =
     Inr ''await app.request('/a, { method: \"GET\" });b');'' \<and>
   convert_test_file ''await request(app.fetch as any).get('/a);b');'' \<noteq>
     Inr ''await request(app.fetch as any).get('/a);b');''"
  by code_simp

section \<open>The main block: reading, converting, writing\<close>

lemma open_write_result:
  assumes "open_write w p = Inr w1"
  shows "\<exists>f. fs w1 p = Some f \<and> data f = []" and "stdout w1 = stdout w"
    and "write_limit w1 = write_limit w" and "print_error w1 = print_error w"
  using assms by (auto simp: open_write_def split: option.splits)

lemma write_text_stdout: "stdout (fst (write_text w p t)) = stdout w"
  by (simp add: write_text_def split: option.splits prod.splits)

lemma write_text_done:
  assumes "write_text w1 p t = (w2, None)" and "fs w1 p = Some f" and "data f = []"
  shows "map_option data (fs w2 p) = Some t"
  using assms by (auto simp: write_text_def split: option.splits prod.splits if_splits)

lemma print_line_done:
  assumes "print_line w2 l = (w3, None)"
  shows "fs w3 = fs w2" and "stdout w3 = stdout w2 @ [l]"
  using assms by (auto simp: print_line_def split: option.splits)

lemma print_line_failed:
  assumes "print_line w2 l = (w3, Some e)"
  shows "w3 = w2"
  using assms by (auto simp: print_line_def split: option.splits)

lemma main_unchanged_without_input:
  assumes "\<not> (\<exists>content converted.
      read_file w in_path = Inr content \<and> convert_test_file content = Inr converted)"
  shows "fst (main w) = w"
proof (cases "read_file w in_path")
  case (Inl e)
  then show ?thesis by (simp add: main_def)
next
  case (Inr content)
  with assms obtain e where "convert_test_file content = Inl e"
    by (cases "convert_test_file content") auto
  with Inr show ?thesis by (simp add: main_def)
qed

lemma main_stdout:
  assumes "snd (main w) \<noteq> None"
  shows "stdout (fst (main w)) = stdout w"
proof (cases "read_file w in_path")
  case (Inl e)
  then show ?thesis by (simp add: main_def)
next
  case r: (Inr content)
  show ?thesis
  proof (cases "convert_test_file content")
    case (Inl e)
    with r show ?thesis by (simp add: main_def)
  next
    case c: (Inr converted)
    show ?thesis
    proof (cases "open_write w out_path")
      case (Inl e)
      with r c show ?thesis by (simp add: main_def)
    next
      case o: (Inr w1)
      obtain w2 r2 where wt: "write_text w1 out_path converted = (w2, r2)"
        by (cases "write_text w1 out_path converted")
      have s2: "stdout w2 = stdout w"
        using write_text_stdout [of w1 out_path converted] open_write_result(2) [OF o]
        by (simp add: wt)
      show ?thesis
      proof (cases r2)
        case (Some e)
        with r c o wt s2 show ?thesis by (simp add: main_def)
      next
        case None
        obtain w3 r3 where pl: "print_line w2 ''Conversion complete!'' = (w3, r3)"
          by (cases "print_line w2 ''Conversion complete!''")
        from r c o wt None pl have m: "main w = (w3, r3)" by (simp add: main_def)
        with assms obtain e where "r3 = Some e" by auto
        with pl have "w3 = w2" by (auto dest: print_line_failed)
        with m s2 show ?thesis by simp
      qed
    qed
  qed
qed

lemma paths_differ: "in_path \<noteq> out_path"
  by (simp add: in_path_def out_path_def)

lemma ready_world_read: "read_file ready_world in_path = Inr ''const a = 1;\<newline>''"
  by (simp add: read_file_def open_read_def read_all_def ready_world_def)

lemma ready_world_convert: "convert_test_file ''const a = 1;\<newline>'' = Inr ''const a = 1;\<newline>''"
  by code_simp

lemma ready_world_open:
  "open_write ready_world out_path =
     Inr (ready_world\<lparr>fs := (fs ready_world)(out_path \<mapsto>
       \<lparr>data = [], open_read_error = None, read_error = None, open_write_error = None\<rparr>)\<rparr>)"
  using paths_differ by (simp add: open_write_def ready_world_def)

lemma ready_world_runs:
  "snd (main ready_world) = None"
  "stdout (fst (main ready_world)) = [''Conversion complete!'']"
  by (simp_all add: main_def ready_world_read ready_world_convert ready_world_open
      write_text_def print_line_def, simp_all add: ready_world_def)

text \<open>The error paths behind the opening of the files: a read that fails after the file
  was opened leaves the world as it was; a write that fails leaves the part that was
  written in the output file, and no line is printed.\<close>

lemma read_failure_after_open:
  "main undecodable_world = (undecodable_world, Some UnicodeDecodeError)"
  by (simp add: main_def read_file_def open_read_def read_all_def undecodable_world_def)

lemma full_disk_world_read: "read_file full_disk_world in_path = Inr ''const a = 1;\<newline>''"
  by (simp add: read_file_def open_read_def read_all_def ready_world_def full_disk_world_def)

lemma full_disk_world_open:
  "open_write full_disk_world out_path =
     Inr (full_disk_world\<lparr>fs := (fs full_disk_world)(out_path \<mapsto>
       \<lparr>data = [], open_read_error = None, read_error = None, open_write_error = None\<rparr>)\<rparr>)"
  using paths_differ by (simp add: open_write_def ready_world_def full_disk_world_def)

lemma write_failure_leaves_partial_output:
  "snd (main full_disk_world) = Some OSError"
  "map_option data (fs (fst (main full_disk_world)) out_path) = Some ''cons''"
  "stdout (fst (main full_disk_world)) = []"
  by (simp_all add: main_def full_disk_world_read ready_world_convert full_disk_world_open
      write_text_def, simp_all add: full_disk_world_def ready_world_def)

text \<open>
  C10: when opening or reading the input file fails, the run ends with that error and the
  world is as it was: nothing is written to the output path and nothing is printed. A run
  that ends without error has read the input, converted it, left exactly the converted
  text in the output file and printed the one line \<open>Conversion complete!\<close>. The world
  changes (the output file or the printed lines) only in a run that has read and converted
  the input, and the line is printed only in a run that ends without error.
\<close>

theorem read_failure_writes_nothing:
  "(read_file w in_path = Inl e \<longrightarrow> main w = (w, Some e)) \<and>
   (snd (main w') = None \<longrightarrow>
      (\<exists>content converted.
         read_file w' in_path = Inr content \<and>
         convert_test_file content = Inr converted \<and>
         map_option data (fs (fst (main w')) out_path) = Some converted \<and>
         stdout (fst (main w')) = stdout w' @ [''Conversion complete!''])) \<and>
   (fst (main w') \<noteq> w' \<longrightarrow>
      (\<exists>content converted.
         read_file w' in_path = Inr content \<and> convert_test_file content = Inr converted)) \<and>
   (stdout (fst (main w')) \<noteq> stdout w' \<longrightarrow> snd (main w') = None)"
proof (intro conjI impI)
  assume "read_file w in_path = Inl e"
  then show "main w = (w, Some e)" by (simp add: main_def)
next
  assume ok: "snd (main w') = None"
  then obtain content where r: "read_file w' in_path = Inr content"
    by (cases "read_file w' in_path") (simp_all add: main_def)
  from ok r obtain converted where c: "convert_test_file content = Inr converted"
    by (cases "convert_test_file content") (simp_all add: main_def)
  from ok r c obtain w1 where o: "open_write w' out_path = Inr w1"
    by (cases "open_write w' out_path") (simp_all add: main_def)
  obtain w2 r2 where wt: "write_text w1 out_path converted = (w2, r2)"
    by (cases "write_text w1 out_path converted")
  from ok r c o wt have r2: "r2 = None"
    by (cases r2) (simp_all add: main_def)
  obtain w3 r3 where pl: "print_line w2 ''Conversion complete!'' = (w3, r3)"
    by (cases "print_line w2 ''Conversion complete!''")
  from r c o wt r2 pl have m: "main w' = (w3, r3)" by (simp add: main_def)
  with ok have r3: "r3 = None" by simp
  from open_write_result(1) [OF o] obtain f where f: "fs w1 out_path = Some f" "data f = []"
    by blast
  have d: "map_option data (fs w2 out_path) = Some converted"
    using wt f unfolding r2 by (rule write_text_done)
  have s2: "stdout w2 = stdout w'"
    using write_text_stdout [of w1 out_path converted] open_write_result(2) [OF o]
    by (simp add: wt)
  from pl r3 have "fs w3 = fs w2" and "stdout w3 = stdout w2 @ [''Conversion complete!'']"
    by (auto dest: print_line_done)
  with d s2 m r c show "\<exists>content converted.
      read_file w' in_path = Inr content \<and> convert_test_file content = Inr converted \<and>
      map_option data (fs (fst (main w')) out_path) = Some converted \<and>
      stdout (fst (main w')) = stdout w' @ [''Conversion complete!'']"
    by simp
next
  assume "fst (main w') \<noteq> w'"
  then show "\<exists>content converted.
      read_file w' in_path = Inr content \<and> convert_test_file content = Inr converted"
    using main_unchanged_without_input by blast
next
  assume "stdout (fst (main w')) \<noteq> stdout w'"
  then show "snd (main w') = None"
    using main_stdout by blast
qed

theorem read_failure_writes_nothing_witness:
  "read_file no_input_world in_path = Inl FileNotFoundError \<and>
   main no_input_world = (no_input_world, Some FileNotFoundError) \<and>
   snd (main ready_world) = None \<and>
   fst (main ready_world) \<noteq> ready_world \<and>
   stdout (fst (main ready_world)) \<noteq> stdout ready_world \<and>
   map_option data (fs (fst (main ready_world)) out_path) = Some ''const a = 1;\<newline>'' \<and>
   stdout (fst (main ready_world)) = [''Conversion complete!'']"
proof -
  have h1: "read_file no_input_world in_path = Inl FileNotFoundError"
    by (simp add: read_file_def open_read_def no_input_world_def)
  have s0: "stdout ready_world = []"
    by (simp add: ready_world_def)
  have h3: "stdout (fst (main ready_world)) \<noteq> stdout ready_world"
    by (simp add: ready_world_runs(2) s0)
  then have h4: "fst (main ready_world) \<noteq> ready_world" by auto
  from read_failure_writes_nothing [of no_input_world FileNotFoundError ready_world]
    h1 h3 h4 ready_world_runs ready_world_read ready_world_convert s0
  show ?thesis by (metis Inr_inject)
qed

end
